theory Spec2Isabelle
  imports Complex_Main "HOL-Library.Sublist"
begin

section \<open>Python strings\<close>

text \<open>
  A Python \<open>str\<close> is modelled as a \<open>string\<close>, each \<open>char\<close> standing for one code point
  below 256 (Latin-1). On that range the regular-expression class \<open>\d\<close> is exactly the
  ten ASCII digits, \<open>str.lower\<close> maps A-Z and the Latin-1 capitals to their small
  letters, and \<open>str.strip\<close> removes the characters for which \<open>str.isspace\<close> holds.
\<close>

definition isdigit :: "char \<Rightarrow> bool" where
  "isdigit c = (c \<in> set ''0123456789'')"

definition isspace :: "char \<Rightarrow> bool" where
  "isspace c = (c \<in> set [CHR '' '', CHR 0x09, CHR 0x0A, CHR 0x0B, CHR 0x0C, CHR 0x0D,
                           CHR 0x1C, CHR 0x1D, CHR 0x1E, CHR 0x1F, CHR 0x85, CHR 0xA0])"

definition lower_chr :: "char \<Rightarrow> char" where
  "lower_chr c =
     (let n = (of_char c :: nat)
      in if (65 \<le> n \<and> n \<le> 90) \<or> (192 \<le> n \<and> n \<le> 222 \<and> n \<noteq> 215)
         then char_of (n + 32) else c)"

definition lower :: "string \<Rightarrow> string" where
  "lower s = map lower_chr s"

definition strip :: "string \<Rightarrow> string" where
  "strip s = rev (dropWhile isspace (rev (dropWhile isspace s)))"

definition startswith :: "string \<Rightarrow> string \<Rightarrow> bool" where
  "startswith s p = (take (length p) s = p)"

definition endswith :: "string \<Rightarrow> string \<Rightarrow> bool" where
  "endswith s p = (length p \<le> length s \<and> drop (length s - length p) s = p)"

text \<open>\<open>sub in s\<close>: \<open>sub\<close> occurs in \<open>s\<close> as a contiguous substring.\<close>

fun contains :: "string \<Rightarrow> string \<Rightarrow> bool" where
  "contains [] sub = (sub = [])"
| "contains (c # cs) sub = (startswith (c # cs) sub \<or> contains cs sub)"

text \<open>
  \<open>s.replace(old, new)\<close>: the non-overlapping occurrences of \<open>old\<close>, leftmost first,
  are replaced; an empty \<open>old\<close> matches before every character and at the end.
\<close>

fun replace :: "string \<Rightarrow> string \<Rightarrow> string \<Rightarrow> string" where
  "replace [] old new = (if old = [] then new else [])"
| "replace (c # cs) old new =
     (if old = [] then new @ c # replace cs old new
      else if startswith (c # cs) old then new @ replace (drop (length old - 1) cs) old new
      else c # replace cs old new)"

text \<open>\<open>str(n)\<close> for a non-negative integer: its decimal digits.\<close>

definition digit_chr :: "nat \<Rightarrow> char" where
  "digit_chr d = char_of (48 + d)"

function str_nat :: "nat \<Rightarrow> string" where
  "str_nat n = (if n < 10 then [digit_chr n] else str_nat (n div 10) @ [digit_chr (n mod 10)])"
  by pat_completeness auto
termination
  by (relation "measure id") auto

declare str_nat.simps [simp del]

section \<open>Errors and output\<close>

text \<open>
  The exceptions of the program: the three a lookup of the extractor can raise, and
  those of the library calls it makes (the parser, the URL join, writing to standard
  output).
\<close>

datatype error =
    AttributeError | IndexError | ValueError
  | ParserRejectedMarkup | UnicodeEncodeError | OSError

text \<open>
  The lines the program prints, one constructor per \<open>print\<close> call of crawler.py, with
  the values the line is built from: line 22, line 100, line 104, line 113, line 116,
  lines 126 to 128, line 175 and line 181.
\<close>

datatype message =
    ErrorFetching string
  | ExtractedDetails string rat
  | ErrorParsing string error
  | CrawlingShopPage string
  | FailedShopPage string
  | NoMoreProducts
  | SelectorHint
  | CheckHtmlHint
  | NextSameAsCurrent
  | NoNextPageLink

section \<open>Parsed documents\<close>

text \<open>
  The parse tree that \<open>BeautifulSoup(html, 'html.parser')\<close> builds: a tag has a name, its
  \<open>class\<close> attribute already split into the list of classes (the library's multi-valued
  attribute), its other attributes, and its children; the remaining nodes are text
  (comments and declarations, which \<open>.text\<close> skips, are left out). The soup object
  itself is a tag whose children are the top-level nodes.
\<close>

datatype node =
    Tag string "string list" "(string \<times> string) list" "node list"
  | NavigableString string

fun tag_name :: "node \<Rightarrow> string" where
  "tag_name (Tag n cls ats ch) = n"
| "tag_name (NavigableString s) = []"

fun classes :: "node \<Rightarrow> string list" where
  "classes (Tag n cls ats ch) = cls"
| "classes (NavigableString s) = []"

fun attrs :: "node \<Rightarrow> (string \<times> string) list" where
  "attrs (Tag n cls ats ch) = ats"
| "attrs (NavigableString s) = []"

fun is_tag :: "node \<Rightarrow> bool" where
  "is_tag (Tag n cls ats ch) = True"
| "is_tag (NavigableString s) = False"

text \<open>The descendants of a node in document order (the node itself is not one of them).\<close>

fun descendants :: "node \<Rightarrow> node list" where
  "descendants (Tag n cls ats ch) = concat (map (\<lambda>k. k # descendants k) ch)"
| "descendants (NavigableString s) = []"

text \<open>\<open>tag.text\<close>: all text below the node, concatenated.\<close>

fun get_text :: "node \<Rightarrow> string" where
  "get_text (Tag n cls ats ch) = concat (map get_text ch)"
| "get_text (NavigableString s) = s"

text \<open>The text nodes below a node, in document order.\<close>

fun strings :: "node \<Rightarrow> string list" where
  "strings (Tag n cls ats ch) = concat (map strings ch)"
| "strings (NavigableString s) = [s]"

fun join :: "string \<Rightarrow> string list \<Rightarrow> string" where
  "join sep [] = []"
| "join sep [x] = x"
| "join sep (x # y # ys) = x @ sep @ join sep (y # ys)"

text \<open>\<open>tag.get_text(separator=sep, strip=True)\<close>: every text node stripped, the empty
  ones dropped, the rest joined by \<open>sep\<close>.\<close>

definition get_text_stripped :: "string \<Rightarrow> node \<Rightarrow> string" where
  "get_text_stripped sep t = join sep (filter (\<lambda>s. s \<noteq> []) (map strip (strings t)))"

text \<open>
  A \<open>class_\<close> filter matches a tag when one of its classes is the given string, or when
  the classes joined by single spaces are the given string (the library's rule for a
  filter that names several classes).
\<close>

definition has_class :: "string \<Rightarrow> node \<Rightarrow> bool" where
  "has_class c t = (c \<in> set (classes t) \<or> join '' '' (classes t) = c)"

definition named :: "string \<Rightarrow> node \<Rightarrow> bool" where
  "named n t = (is_tag t \<and> tag_name t = n)"

text \<open>\<open>tag.find_all(...)\<close> and \<open>tag.find(...)\<close> for a filter \<open>P\<close> on tags.\<close>

definition find_all :: "(node \<Rightarrow> bool) \<Rightarrow> node \<Rightarrow> node list" where
  "find_all P t = filter P (descendants t)"

definition find_tag :: "(node \<Rightarrow> bool) \<Rightarrow> node \<Rightarrow> node option" where
  "find_tag P t = (case find_all P t of [] \<Rightarrow> None | x # xs \<Rightarrow> Some x)"

text \<open>\<open>t.find(n)\<close>, \<open>t.find_all(n)\<close>, \<open>t.find(n, class_=c)\<close> and \<open>t.find_all(n, class_=c)\<close>.\<close>

definition find_name :: "string \<Rightarrow> node \<Rightarrow> node option" where
  "find_name n t = find_tag (named n) t"

definition find_all_name :: "string \<Rightarrow> node \<Rightarrow> node list" where
  "find_all_name n t = find_all (named n) t"

definition find_class :: "string \<Rightarrow> string \<Rightarrow> node \<Rightarrow> node option" where
  "find_class n c t = find_tag (\<lambda>x. named n x \<and> has_class c x) t"

definition find_all_class :: "string \<Rightarrow> string \<Rightarrow> node \<Rightarrow> node list" where
  "find_all_class n c t = find_all (\<lambda>x. named n x \<and> has_class c x) t"

text \<open>\<open>tag.attrs\<close> is a dict: the association list is read with \<open>map_of\<close>.\<close>

definition attr :: "node \<Rightarrow> string \<Rightarrow> string option" where
  "attr t k = map_of (attrs t) k"

section \<open>The static extractor (crawler.py)\<close>

text \<open>
  The outside world of the crawler.
  \<^item> \<open>http_get url\<close> is the body of the response to \<open>requests.get(url)\<close>, or \<open>None\<close>
    when the request raises a \<open>RequestException\<close> (transport failure, timeout, or a
    status of 400 and above through \<open>raise_for_status\<close>).
  \<^item> \<open>html_parser\<close> is \<open>BeautifulSoup(_, 'html.parser')\<close>, which raises on markup the
    parser rejects.
  \<^item> \<open>urljoin\<close> is \<open>requests.compat.urljoin\<close>, which raises on a reference it cannot
    split.
  \<^item> \<open>console m\<close> is the exception \<open>print\<close> raises on the line \<open>m\<close>, \<open>None\<close> when the
    line is written.
  The same URL always gets the same answer. Sleeping is left out.
\<close>

record web =
  http_get :: "string \<Rightarrow> string option"
  html_parser :: "string \<Rightarrow> error + node"
  urljoin :: "string \<Rightarrow> string \<Rightarrow> error + string"
  console :: "message \<Rightarrow> error option"

text \<open>\<open>print(m)\<close> followed by a computation that ends with the value \<open>x\<close>.\<close>

definition print_then :: "web \<Rightarrow> message \<Rightarrow> 'a \<Rightarrow> error + 'a" where
  "print_then w m x = (case console w m of Some e \<Rightarrow> Inl e | None \<Rightarrow> Inr x)"

fun print_all :: "web \<Rightarrow> message list \<Rightarrow> 'a \<Rightarrow> error + 'a" where
  "print_all w [] x = Inr x"
| "print_all w (m # ms) x = (case console w m of Some e \<Rightarrow> Inl e | None \<Rightarrow> print_all w ms x)"

text \<open>
  Every function that fetches returns its outcome, \<open>Inl\<close> for an exception that leaves
  it, together with the list of the URLs requested so far.

  \<open>get_page_content\<close> (lines 12-23): the handler prints and returns \<open>None\<close>.
\<close>

definition get_page_content ::
  "web \<Rightarrow> string \<Rightarrow> string list \<Rightarrow> (error + string option) \<times> string list" where
  "get_page_content w url reqs =
     (case http_get w url of
        Some text \<Rightarrow> (Inr (Some text), reqs @ [url])
      | None \<Rightarrow> (print_then w (ErrorFetching url) None, reqs @ [url]))"

datatype pvalue = PStr string | PFloat rat | PBool bool

type_synonym product_data = "string \<rightharpoonup> pvalue"

text \<open>Product name (lines 41-43). \<open>name_div.find('h4')\<close> may be \<open>None\<close>, on which
  \<open>.find('a')\<close> raises.\<close>

definition product_name_of :: "node \<Rightarrow> error + string" where
  "product_name_of soup =
     (case find_class ''div'' ''product-collection__title'' soup of
        None \<Rightarrow> Inr ''N/A''
      | Some name_div \<Rightarrow>
          (case find_name ''h4'' name_div of
             None \<Rightarrow> Inl AttributeError
           | Some h4 \<Rightarrow>
               (case find_name ''a'' h4 of
                  None \<Rightarrow> Inr ''N/A''
                | Some name_tag \<Rightarrow> Inr (strip (get_text name_tag)))))"

text \<open>\<open>re.sub(r'[^\d.]', '', price_text)\<close>.\<close>

definition clean_price :: "string \<Rightarrow> string" where
  "clean_price price_text = filter (\<lambda>c. isdigit c \<or> c = CHR ''.'') price_text"

definition points :: "string \<Rightarrow> nat" where
  "points s = length (filter (\<lambda>c. c = CHR ''.'') s)"

definition nat_of_digits :: "string \<Rightarrow> nat" where
  "nat_of_digits s = foldl (\<lambda>a c. 10 * a + (of_char c - 48)) 0 s"

text \<open>
  \<open>float(s)\<close> on the strings the call sites pass, which consist of digits and points:
  a decimal literal has at most one point and at least one digit; anything else raises
  \<open>ValueError\<close>. The value is kept as the exact rational the literal denotes (rounding to
  a binary float is not modelled).
\<close>

definition float_of :: "string \<Rightarrow> error + rat" where
  "float_of s =
     (if list_all (\<lambda>c. isdigit c \<or> c = CHR ''.'') s
         \<and> points s \<le> 1
         \<and> list_ex isdigit s
      then (let ip = takeWhile (\<lambda>c. c \<noteq> CHR ''.'') s;
                fp = drop 1 (dropWhile (\<lambda>c. c \<noteq> CHR ''.'') s)
            in Inr (of_nat (nat_of_digits (ip @ fp)) / 10 ^ length fp))
      else Inl ValueError)"

text \<open>Lines 51-53 and 58-60: clean the text, parse it unless it is empty.\<close>

definition price_of_text :: "string \<Rightarrow> error + rat" where
  "price_of_text price_text =
     (let cleaned_price = clean_price price_text
      in if cleaned_price \<noteq> [] then float_of cleaned_price else Inr 0)"

text \<open>Price (lines 46-64). \<open>find_all('span')[-1]\<close> raises on an empty result.\<close>

definition price_of :: "node \<Rightarrow> error + rat" where
  "price_of soup =
     (case find_class ''div'' ''product-collection__price'' soup of
        None \<Rightarrow> Inr 0
      | Some price_span_container \<Rightarrow>
          (case find_class ''span'' ''price--sale'' price_span_container of
             Some price_spans \<Rightarrow>
               (case find_all_name ''span'' price_spans of
                  [] \<Rightarrow> Inl IndexError
                | s # ss \<Rightarrow> price_of_text (strip (get_text (last (s # ss)))))
           | None \<Rightarrow>
               (case find_class ''span'' ''price'' price_span_container of
                  Some single_price_tag \<Rightarrow>
                    price_of_text
                      (case find_name ''bdi'' single_price_tag of
                         Some amount_tag \<Rightarrow> strip (get_text amount_tag)
                       | None \<Rightarrow> strip (get_text single_price_tag))
                | None \<Rightarrow> Inr 0)))"

text \<open>Description (lines 67-69).\<close>

definition description_of :: "node \<Rightarrow> string" where
  "description_of soup =
     (case find_class ''div'' ''product-collection__description'' soup of
        None \<Rightarrow> ''N/A''
      | Some desc_div \<Rightarrow>
          (case find_class ''p'' ''m-0'' desc_div of
             None \<Rightarrow> ''N/A''
           | Some desc_tag \<Rightarrow> get_text_stripped '' '' desc_tag))"

text \<open>Category (lines 75-77).\<close>

definition category_of :: "node \<Rightarrow> string" where
  "category_of soup =
     (case find_class ''div'' ''product-collection__more-info'' soup of
        None \<Rightarrow> ''N/A''
      | Some vendor_info_div \<Rightarrow>
          (case find_name ''a'' vendor_info_div of
             None \<Rightarrow> ''N/A''
           | Some vendor_tag \<Rightarrow> strip (get_text vendor_tag)))"

text \<open>Availability (lines 80-88).\<close>

definition availability_of :: "node \<Rightarrow> bool" where
  "availability_of soup =
     (case find_class ''div'' ''product-collection__availability'' soup of
        Some availability_div \<Rightarrow>
          (case find_name ''span'' availability_div of
             Some availability_span \<Rightarrow> contains (lower (get_text availability_span)) ''in stock''
           | None \<Rightarrow> True)
      | None \<Rightarrow> True)"

text \<open>Image URL (lines 91-98).\<close>

definition normalize_image_url :: "string \<Rightarrow> string" where
  "normalize_image_url data_master =
     (let base_image_url = replace data_master ''{width}x'' ''1000x''
      in if startswith base_image_url ''//'' then ''https:'' @ base_image_url else base_image_url)"

definition image_url_of :: "node \<Rightarrow> string" where
  "image_url_of soup =
     (let img_tag =
            (case find_class ''div'' ''rimage'' soup of
               Some rimage_div \<Rightarrow> find_name ''img'' rimage_div
             | None \<Rightarrow> None)
      in case img_tag of
           None \<Rightarrow> ''N/A''
         | Some t \<Rightarrow>
             (case attr t ''data-master'' of
                Some data_master \<Rightarrow> normalize_image_url data_master
              | None \<Rightarrow> ''N/A''))"

text \<open>
  The text the price is parsed from, when the document has a node to take it from. It is
  used to state properties only.
\<close>

definition price_text_of :: "node \<Rightarrow> string option" where
  "price_text_of soup =
     (case find_class ''div'' ''product-collection__price'' soup of
        None \<Rightarrow> None
      | Some price_span_container \<Rightarrow>
          (case find_class ''span'' ''price--sale'' price_span_container of
             Some price_spans \<Rightarrow>
               (case find_all_name ''span'' price_spans of
                  [] \<Rightarrow> None
                | s # ss \<Rightarrow> Some (strip (get_text (last (s # ss)))))
           | None \<Rightarrow>
               (case find_class ''span'' ''price'' price_span_container of
                  Some single_price_tag \<Rightarrow>
                    Some (case find_name ''bdi'' single_price_tag of
                            Some amount_tag \<Rightarrow> strip (get_text amount_tag)
                          | None \<Rightarrow> strip (get_text single_price_tag))
                | None \<Rightarrow> None)))"

text \<open>
  The body of the \<open>try\<close> block (lines 39-101): the dict is filled field by field, the
  success line is printed, and the first exception leaves the block.
\<close>

definition extract_fields :: "web \<Rightarrow> string \<Rightarrow> node \<Rightarrow> error + product_data" where
  "extract_fields w product_url soup =
     (case product_name_of soup of
        Inl e \<Rightarrow> Inl e
      | Inr product_name \<Rightarrow>
          (case price_of soup of
             Inl e \<Rightarrow> Inl e
           | Inr price \<Rightarrow>
               print_then w (ExtractedDetails product_name price)
                 [''original_url'' \<mapsto> PStr product_url,
                  ''product_name'' \<mapsto> PStr product_name,
                  ''price'' \<mapsto> PFloat price,
                  ''description'' \<mapsto> PStr (description_of soup),
                  ''rating'' \<mapsto> PFloat 0,
                  ''category'' \<mapsto> PStr (category_of soup),
                  ''availability'' \<mapsto> PBool (availability_of soup),
                  ''image_url'' \<mapsto> PStr (image_url_of soup)]))"

text \<open>
  \<open>parse_product_details\<close> (lines 25-105). No content gives \<open>None\<close>. The document is
  parsed before the \<open>try\<close> block (line 34), so an exception of the parser leaves the
  function. An exception of the \<open>try\<close> block is caught: the handler prints and returns
  \<open>None\<close> (lines 103-105).
\<close>

definition parse_product_details ::
  "web \<Rightarrow> string \<Rightarrow> string list \<Rightarrow> (error + product_data option) \<times> string list" where
  "parse_product_details w product_url reqs =
     (case get_page_content w product_url reqs of
        (Inl e, reqs') \<Rightarrow> (Inl e, reqs')
      | (Inr html_content, reqs') \<Rightarrow>
          (case html_content of
             None \<Rightarrow> (Inr None, reqs')
           | Some html \<Rightarrow>
               if html = [] then (Inr None, reqs')
               else (case html_parser w html of
                       Inl e \<Rightarrow> (Inl e, reqs')
                     | Inr soup \<Rightarrow>
                         (case extract_fields w product_url soup of
                            Inr product_data \<Rightarrow> (Inr (Some product_data), reqs')
                          | Inl e \<Rightarrow> (print_then w (ErrorParsing product_url e) None, reqs')))))"

section \<open>The pagination controller (crawler.py)\<close>

text \<open>
  One pass of the \<open>for\<close> loop over the product cards (lines 131-148). The link filter
  \<open>href=re.compile(r'/products/')\<close> accepts an \<open>a\<close> tag whose \<open>href\<close> contains that
  substring.
\<close>

definition product_link :: "node \<Rightarrow> bool" where
  "product_link t =
     (named ''a'' t \<and> (case attr t ''href'' of None \<Rightarrow> False | Some h \<Rightarrow> contains h ''/products/''))"

definition is_detail_url :: "string \<Rightarrow> bool" where
  "is_detail_url product_url = (contains product_url ''/products/'' \<and> \<not> endswith product_url ''/'')"

text \<open>Lines 138-139; the join runs outside any handler.\<close>

definition absolute_url :: "web \<Rightarrow> string \<Rightarrow> string \<Rightarrow> error + string" where
  "absolute_url w base_shop_url href =
     (if \<not> startswith href ''http'' then urljoin w base_shop_url href else Inr href)"

definition process_item ::
  "web \<Rightarrow> string \<Rightarrow> node \<Rightarrow> product_data list \<times> string list
     \<Rightarrow> (error + product_data list) \<times> string list" where
  "process_item w base_shop_url item st =
     (case st of
        (all_products_data, reqs) \<Rightarrow>
          (case find_tag product_link item of
             None \<Rightarrow> (Inr all_products_data, reqs)
           | Some product_link_tag \<Rightarrow>
               (case attr product_link_tag ''href'' of
                  None \<Rightarrow> (Inr all_products_data, reqs)
                | Some href \<Rightarrow>
                    (case absolute_url w base_shop_url href of
                       Inl e \<Rightarrow> (Inl e, reqs)
                     | Inr product_url \<Rightarrow>
                         if is_detail_url product_url
                         then (case parse_product_details w product_url reqs of
                                 (Inl e, reqs') \<Rightarrow> (Inl e, reqs')
                               | (Inr (Some product_details), reqs') \<Rightarrow>
                                   (Inr (all_products_data @ [product_details]), reqs')
                               | (Inr None, reqs') \<Rightarrow> (Inr all_products_data, reqs'))
                         else (Inr all_products_data, reqs)))))"

text \<open>The \<open>for\<close> loop: an exception in one pass ends it.\<close>

fun process_items ::
  "web \<Rightarrow> string \<Rightarrow> node list \<Rightarrow> product_data list \<times> string list
     \<Rightarrow> (error + product_data list) \<times> string list" where
  "process_items w base_shop_url [] st = (Inr (fst st), snd st)"
| "process_items w base_shop_url (item # items) st =
     (case process_item w base_shop_url item st of
        (Inl e, reqs') \<Rightarrow> (Inl e, reqs')
      | (Inr all_products_data, reqs') \<Rightarrow>
          process_items w base_shop_url items (all_products_data, reqs'))"

text \<open>The product cards of a listing page (line 123).\<close>

definition product_list_items :: "node \<Rightarrow> node list" where
  "product_list_items soup =
     find_all_class ''div'' ''col-sm-6 col-md-4 col-lg-4 col-xl-4'' soup"

text \<open>The \<open>href\<close> of the next-page link, if the page has one (lines 153-164).\<close>

definition next_page_link_element :: "node \<Rightarrow> string option" where
  "next_page_link_element soup =
     (let pagination_nav =
            (case find_class ''nav'' ''woocommerce-pagination'' soup of
               Some nav \<Rightarrow> Some nav
             | None \<Rightarrow> find_class ''div'' ''pagination-bar__wrapper'' soup)
      in case pagination_nav of
           None \<Rightarrow> None
         | Some nav \<Rightarrow>
             (let next_link_tag =
                    (case find_class ''a'' ''next'' nav of
                       Some t \<Rightarrow> Some t
                     | None \<Rightarrow> find_class ''a'' ''next page-numbers'' nav)
              in case next_link_tag of
                   None \<Rightarrow> None
                 | Some t \<Rightarrow> attr t ''href''))"

definition current_page_url :: "string \<Rightarrow> nat \<Rightarrow> string" where
  "current_page_url base_shop_url page_num =
     (if page_num > 1 then base_shop_url @ ''/page/'' @ str_nat page_num @ ''/'' else base_shop_url)"

text \<open>
  Why the \<open>while\<close> loop was left; each \<open>break\<close> prints its own lines. The first is the
  failed state of the controller, the other three are its normal end.
\<close>

datatype stop = FetchFailed | NoProducts | SameNextPage | NoNextLink

text \<open>
  The \<open>while True\<close> loop of \<open>crawl_shop_pages\<close> (lines 111-182). It need not end: the
  result is \<open>None\<close> when it runs forever. Otherwise it is the request log with either the
  exception that left the function, in which case nothing is returned to the caller, or
  the records returned and the reason for stopping.
\<close>

partial_function (option) crawl_loop ::
  "web \<Rightarrow> string \<Rightarrow> nat \<Rightarrow> product_data list \<Rightarrow> string list
     \<Rightarrow> ((error + product_data list \<times> stop) \<times> string list) option" where
  "crawl_loop w base_shop_url page_num all_products_data reqs =
     (case console w (CrawlingShopPage (current_page_url base_shop_url page_num)) of
        Some e \<Rightarrow> Some (Inl e, reqs)
      | None \<Rightarrow>
     (case get_page_content w (current_page_url base_shop_url page_num) reqs of
        (Inl e, reqs1) \<Rightarrow> Some (Inl e, reqs1)
      | (Inr None, reqs1) \<Rightarrow>
          Some (print_then w (FailedShopPage (current_page_url base_shop_url page_num))
                  (all_products_data, FetchFailed), reqs1)
      | (Inr (Some html), reqs1) \<Rightarrow>
          if html = []
          then Some (print_then w (FailedShopPage (current_page_url base_shop_url page_num))
                       (all_products_data, FetchFailed), reqs1)
          else
          (case html_parser w html of
             Inl e \<Rightarrow> Some (Inl e, reqs1)
           | Inr soup \<Rightarrow>
               if product_list_items soup = []
               then Some (print_all w [NoMoreProducts, SelectorHint, CheckHtmlHint]
                            (all_products_data, NoProducts), reqs1)
               else
               (case process_items w base_shop_url (product_list_items soup)
                       (all_products_data, reqs1) of
                  (Inl e, reqs2) \<Rightarrow> Some (Inl e, reqs2)
                | (Inr all_products_data2, reqs2) \<Rightarrow>
                    (case next_page_link_element soup of
                       None \<Rightarrow>
                         Some (print_then w NoNextPageLink (all_products_data2, NoNextLink), reqs2)
                     | Some link \<Rightarrow>
                         if link = []
                         then Some (print_then w NoNextPageLink (all_products_data2, NoNextLink),
                                    reqs2)
                         else
                         (case absolute_url w base_shop_url link of
                            Inl e \<Rightarrow> Some (Inl e, reqs2)
                          | Inr next_page_url \<Rightarrow>
                              if next_page_url = current_page_url base_shop_url page_num
                              then Some (print_then w NextSameAsCurrent
                                           (all_products_data2, SameNextPage), reqs2)
                              else crawl_loop w base_shop_url (page_num + 1)
                                     all_products_data2 reqs2))))))"

declare crawl_loop.simps [code]

definition crawl_shop_pages ::
  "web \<Rightarrow> string \<Rightarrow> ((error + product_data list \<times> stop) \<times> string list) option" where
  "crawl_shop_pages w base_shop_url = crawl_loop w base_shop_url 1 [] []"

text \<open>
  The loop body read off page by page, for stating properties. \<open>listing_soup\<close> is what
  the parser makes of listing page \<open>page_num\<close> when the fetch gives content, and
  \<open>page_cards\<close> its product cards. \<open>page_stop\<close> is how the loop body ends at that page
  when every line is printed: with an exception, with a \<open>break\<close>, or, for \<open>None\<close>, by going
  on to the next page.
\<close>

definition listing_soup :: "web \<Rightarrow> string \<Rightarrow> nat \<Rightarrow> (error + node) option" where
  "listing_soup w base_shop_url page_num =
     (case http_get w (current_page_url base_shop_url page_num) of
        None \<Rightarrow> None
      | Some html \<Rightarrow> if html = [] then None else Some (html_parser w html))"

definition page_cards :: "web \<Rightarrow> string \<Rightarrow> nat \<Rightarrow> node list" where
  "page_cards w base_shop_url page_num =
     (case listing_soup w base_shop_url page_num of
        Some (Inr soup) \<Rightarrow> product_list_items soup
      | _ \<Rightarrow> [])"

definition page_stop :: "web \<Rightarrow> string \<Rightarrow> nat \<Rightarrow> (error + stop) option" where
  "page_stop w base_shop_url page_num =
     (case listing_soup w base_shop_url page_num of
        None \<Rightarrow> Some (Inr FetchFailed)
      | Some (Inl e) \<Rightarrow> Some (Inl e)
      | Some (Inr soup) \<Rightarrow>
          if product_list_items soup = [] then Some (Inr NoProducts)
          else (case fst (process_items w base_shop_url (product_list_items soup) ([], [])) of
                  Inl e \<Rightarrow> Some (Inl e)
                | Inr records \<Rightarrow>
                    (case next_page_link_element soup of
                       None \<Rightarrow> Some (Inr NoNextLink)
                     | Some link \<Rightarrow>
                         if link = [] then Some (Inr NoNextLink)
                         else (case absolute_url w base_shop_url link of
                                 Inl e \<Rightarrow> Some (Inl e)
                               | Inr next_page_url \<Rightarrow>
                                   if next_page_url = current_page_url base_shop_url page_num
                                   then Some (Inr SameNextPage)
                                   else None))))"

text \<open>
  The detail URL a card leads to, if its link resolves to one; the detail URLs of a list
  of cards, in order, repeated as often as they are linked; and the records that
  extracting a detail URL gives, one or none.
\<close>

definition card_url :: "web \<Rightarrow> string \<Rightarrow> node \<Rightarrow> string option" where
  "card_url w base_shop_url item =
     (case find_tag product_link item of
        None \<Rightarrow> None
      | Some product_link_tag \<Rightarrow>
          (case attr product_link_tag ''href'' of
             None \<Rightarrow> None
           | Some href \<Rightarrow>
               (case absolute_url w base_shop_url href of
                  Inl e \<Rightarrow> None
                | Inr product_url \<Rightarrow> if is_detail_url product_url then Some product_url else None)))"

definition detail_urls :: "web \<Rightarrow> string \<Rightarrow> node list \<Rightarrow> string list" where
  "detail_urls w base_shop_url items =
     concat (map (\<lambda>item. case card_url w base_shop_url item of None \<Rightarrow> [] | Some u \<Rightarrow> [u]) items)"

definition records_at :: "web \<Rightarrow> string \<Rightarrow> product_data list" where
  "records_at w product_url =
     (case fst (parse_product_details w product_url []) of
        Inr (Some product_details) \<Rightarrow> [product_details]
      | _ \<Rightarrow> [])"

text \<open>The source URLs of a sequence of records, in order.\<close>

definition source_urls :: "product_data list \<Rightarrow> pvalue option list" where
  "source_urls records = map (\<lambda>r. r ''original_url'') records"

section \<open>The rendering session (scrape.py)\<close>

text \<open>
  The scroll loop (lines 53-71). \<open>heights i\<close> is what the \<open>i\<close>-th evaluation of
  \<open>document.body.scrollHeight\<close> inside the loop returns; \<open>last_height\<close> starts as the
  measurement taken before the loop. The result is the number of the iteration at which
  the loop is left, counted from 0, or \<open>None\<close> when it never is.
\<close>

partial_function (option) scroll_loop :: "(nat \<Rightarrow> int) \<Rightarrow> nat \<Rightarrow> int \<Rightarrow> nat option" where
  "scroll_loop heights i last_height =
     (let new_height = heights i
      in if new_height = last_height then Some i
         else scroll_loop heights (i + 1) new_height)"

declare scroll_loop.simps [code]

text \<open>
  The image URL of the rendering session (lines 114-125). The argument is the value of
  the \<open>data-master\<close> attribute, \<open>None\<close> when the image element or the attribute is
  missing; the result \<open>None\<close> is Python's.
\<close>

definition scrape_image_url :: "string option \<Rightarrow> string option" where
  "scrape_image_url data_master_url =
     (case data_master_url of
        None \<Rightarrow> None
      | Some d \<Rightarrow>
          if d = [] then None
          else (let image_url = replace d ''{width}x'' ''1024x''
                in Some (if \<not> startswith image_url ''http'' then ''https:'' @ image_url
                         else image_url)))"

section \<open>Fixture pages\<close>

text \<open>Small parse trees and a small site, used to run the definitions on concrete inputs.\<close>

definition document :: "node list \<Rightarrow> node" where
  "document kids = Tag ''[document]'' [] [] kids"

definition elem :: "string \<Rightarrow> string list \<Rightarrow> node list \<Rightarrow> node" where
  "elem n cls kids = Tag n cls [] kids"

definition title_block :: "string \<Rightarrow> node" where
  "title_block name =
     elem ''div'' [''product-collection__title'', ''mb-3'']
       [elem ''h4'' [''m-0''] [Tag ''a'' [] [(''href'', ''#'')] [NavigableString name]]]"

definition sale_price_block :: "string \<Rightarrow> string \<Rightarrow> node" where
  "sale_price_block was now =
     elem ''div'' [''product-collection__price'']
       [elem ''span'' [''price'', ''price--sale'']
          [elem ''span'' [] [NavigableString was], elem ''span'' [] [NavigableString now]]]"

definition regular_price_block :: "string \<Rightarrow> node" where
  "regular_price_block amount =
     elem ''div'' [''product-collection__price'']
       [elem ''span'' [''price''] [NavigableString amount]]"

definition availability_block :: "string \<Rightarrow> node" where
  "availability_block txt =
     elem ''div'' [''product-collection__availability'']
       [elem ''p'' [] [elem ''span'' [] [NavigableString txt]]]"

definition image_block :: "string \<Rightarrow> node" where
  "image_block src =
     elem ''div'' [''rimage''] [Tag ''img'' [''rimage__img''] [(''data-master'', src)] []]"

text \<open>A complete detail page of a product on sale.\<close>

definition tea_page :: node where
  "tea_page =
     document [title_block '' Masala Tea '', sale_price_block ''$ 15.00'' ''$ 12.50'',
               availability_block ''5 In Stock'', image_block ''//cdn.site.com/tea_{width}x.jpg'']"

text \<open>A detail page with no product markup at all.\<close>

definition blank_page :: node where
  "blank_page = document [elem ''p'' [] [NavigableString ''hello'']]"

text \<open>A detail page whose title block has no heading.\<close>

definition no_heading_page :: node where
  "no_heading_page =
     document [elem ''div'' [''product-collection__title''] [NavigableString ''Rice''],
               regular_price_block ''$ 3.00'']"

text \<open>A detail page whose sale-price node holds its text directly, with no nested span.\<close>

definition bare_sale_page :: node where
  "bare_sale_page =
     document [title_block ''Ghee'',
               elem ''div'' [''product-collection__price'']
                 [elem ''span'' [''price'', ''price--sale''] [NavigableString ''$ 9.99'']]]"

text \<open>A sold-out product with a regular price and a site-relative image path.\<close>

definition lentils_page :: node where
  "lentils_page =
     document [title_block ''Lentils'', regular_price_block ''$ 4.25'',
               availability_block ''Out of stock'', image_block ''/img/lentils.jpg'']"

text \<open>A product card of a listing page, and the pagination bar.\<close>

definition card :: "string \<Rightarrow> node" where
  "card href =
     elem ''div'' [''col-sm-6'', ''col-md-4'', ''col-lg-4'', ''col-xl-4'']
       [Tag ''a'' [] [(''href'', href)] [NavigableString ''view'']]"

definition pager :: "string \<Rightarrow> node" where
  "pager href =
     elem ''div'' [''pagination-bar__wrapper''] [Tag ''a'' [''next''] [(''href'', href)] []]"

text \<open>
  A small shop. Its sale listing has two pages: page 1 links the tea twice, a collection,
  a product whose page cannot be fetched, and the lentils; page 2 links the ghee, and its
  next link points back to page 2. The listing of new arrivals is a single page with two
  cards and no pagination bar. The listing of oddments is a single page, with no
  pagination bar, whose second card has a link that the join rejects. The response
  bodies are short names that the parser maps to the trees, and one body that the parser
  rejects; the join prefixes the host, as \<open>urljoin\<close> does for a reference that starts
  with a slash; every line is printed.
\<close>

definition shop_url :: string where
  "shop_url = ''http://s.t/sale''"

definition shop_get :: "string \<Rightarrow> string option" where
  "shop_get url =
     (if url = ''http://s.t/sale'' then Some ''L1''
      else if url = ''http://s.t/sale/page/2/'' then Some ''L2''
      else if url = ''http://s.t/new'' then Some ''N1''
      else if url = ''http://s.t/odd'' then Some ''O1''
      else if url = ''http://s.t/products/tea'' then Some ''tea''
      else if url = ''http://s.t/products/lentils'' then Some ''lentils''
      else if url = ''http://s.t/products/ghee'' then Some ''ghee''
      else if url = ''http://s.t/products/rice'' then Some ''rice''
      else if url = ''http://s.t/products/salt'' then Some ''salt''
      else if url = ''http://s.t/products/bad'' then Some ''<![foo[bar]]>''
      else None)"

definition shop_parser :: "string \<Rightarrow> error + node" where
  "shop_parser html =
     (if html = ''L1'' then
        Inr (document [card ''/products/tea'', card ''/products/tea'',
                       card ''/products/summer-collection/'', card ''/products/gone'',
                       card ''/products/lentils'', pager ''/sale/page/2/''])
      else if html = ''L2'' then Inr (document [card ''/products/ghee'', pager ''/sale/page/2/''])
      else if html = ''N1'' then Inr (document [card ''/products/tea'', card ''/products/lentils''])
      else if html = ''O1'' then Inr (document [card ''/products/tea'', card ''//[/products/x''])
      else if html = ''tea'' then Inr tea_page
      else if html = ''lentils'' then Inr lentils_page
      else if html = ''ghee'' then Inr bare_sale_page
      else if html = ''rice'' then Inr no_heading_page
      else if html = ''<![foo[bar]]>'' then Inl ParserRejectedMarkup
      else Inr blank_page)"

definition shop_join :: "string \<Rightarrow> string \<Rightarrow> error + string" where
  "shop_join base ref = (if startswith ref ''//['' then Inl ValueError else Inr (''http://s.t'' @ ref))"

definition shop :: web where
  "shop = \<lparr>http_get = shop_get, html_parser = shop_parser, urljoin = shop_join,
           console = (\<lambda>m. None)\<rparr>"

section \<open>Properties\<close>

lemma startswith_iff: "startswith s p \<longleftrightarrow> (\<exists>q. s = p @ q)"
  unfolding startswith_def
  by (metis append_eq_conv_conj append_take_drop_id)

lemma contains_iff: "contains s sub \<longleftrightarrow> (\<exists>p q. s = p @ sub @ q)"
proof (induction s)
  case Nil
  then show ?case by auto
next
  case (Cons c cs)
  show ?case
  proof
    assume "contains (c # cs) sub"
    then consider "startswith (c # cs) sub" | "contains cs sub" by auto
    then show "\<exists>p q. c # cs = p @ sub @ q"
    proof cases
      case 1
      then obtain q where "c # cs = sub @ q" by (auto simp: startswith_iff)
      then have "c # cs = [] @ sub @ q" by simp
      then show ?thesis by blast
    next
      case 2
      then obtain p q where "cs = p @ sub @ q" using Cons.IH by auto
      then have "c # cs = (c # p) @ sub @ q" by simp
      then show ?thesis by blast
    qed
  next
    assume "\<exists>p q. c # cs = p @ sub @ q"
    then obtain p q where pq: "c # cs = p @ sub @ q" by auto
    show "contains (c # cs) sub"
    proof (cases p)
      case Nil
      with pq have "startswith (c # cs) sub" by (auto simp: startswith_iff)
      then show ?thesis by simp
    next
      case (Cons a p')
      with pq have "cs = p' @ sub @ q" by simp
      then have "contains cs sub" using Cons.IH by blast
      then show ?thesis by simp
    qed
  qed
qed

lemma endswith_slash: "endswith s ''/'' \<longleftrightarrow> (s \<noteq> [] \<and> last s = CHR ''/'')"
proof (cases s rule: rev_cases)
  case Nil
  then show ?thesis by (simp add: endswith_def)
next
  case (snoc ys y)
  then show ?thesis by (auto simp: endswith_def)
qed

lemma clean_price_chars: "list_all (\<lambda>c. isdigit c \<or> c = CHR ''.'') (clean_price t)"
  by (simp add: clean_price_def list_all_iff)

lemma clean_price_has_digit: "list_ex isdigit (clean_price t) = list_ex isdigit t"
  by (auto simp: clean_price_def list_ex_iff)

lemma float_of_ok:
  "list_all (\<lambda>c. isdigit c \<or> c = CHR ''.'') s \<Longrightarrow> points s \<le> 1
   \<Longrightarrow> list_ex isdigit s \<Longrightarrow> \<exists>v. float_of s = Inr v \<and> 0 \<le> v"
  by (simp add: float_of_def Let_def)

lemma replace_absent: "old \<noteq> [] \<Longrightarrow> \<not> contains s old \<Longrightarrow> replace s old new = s"
  by (induction s) auto

lemmas sel_defs = find_tag_def find_all_def find_name_def find_all_name_def find_class_def
  find_all_class_def named_def has_class_def attr_def

lemmas page_defs = document_def elem_def title_block_def sale_price_block_def
  regular_price_block_def availability_block_def image_block_def card_def pager_def
  tea_page_def blank_page_def no_heading_page_def bare_sale_page_def lentils_page_def

lemmas str_defs = startswith_def endswith_def strip_def isspace_def isdigit_def clean_price_def
  float_of_def nat_of_digits_def price_of_text_def points_def

lemmas shop_defs = shop_def shop_get_def shop_parser_def shop_join_def shop_url_def

lemma shop_quiet: "\<forall>m. console shop m = None"
  by (simp add: shop_def)

lemma print_then_quiet: "console w m = None \<Longrightarrow> print_then w m x = Inr x"
  by (simp add: print_then_def)

lemma print_all_quiet: "\<forall>m. console w m = None \<Longrightarrow> print_all w ms x = Inr x"
  by (induction ms) simp_all

lemma extract_fields_Inr:
  assumes "extract_fields w url soup = Inr r"
  shows "\<exists>name price. product_name_of soup = Inr name \<and> price_of soup = Inr price \<and>
     r = [''original_url'' \<mapsto> PStr url, ''product_name'' \<mapsto> PStr name, ''price'' \<mapsto> PFloat price,
          ''description'' \<mapsto> PStr (description_of soup), ''rating'' \<mapsto> PFloat 0,
          ''category'' \<mapsto> PStr (category_of soup), ''availability'' \<mapsto> PBool (availability_of soup),
          ''image_url'' \<mapsto> PStr (image_url_of soup)]"
  using assms unfolding extract_fields_def print_then_def
  by (auto split: sum.splits option.splits)

lemma extract_fields_quiet:
  assumes "\<forall>m. console w m = None"
  shows "extract_fields w url soup =
     (case product_name_of soup of
        Inl e \<Rightarrow> Inl e
      | Inr name \<Rightarrow>
          (case price_of soup of
             Inl e \<Rightarrow> Inl e
           | Inr price \<Rightarrow>
               Inr [''original_url'' \<mapsto> PStr url, ''product_name'' \<mapsto> PStr name,
                    ''price'' \<mapsto> PFloat price,
                    ''description'' \<mapsto> PStr (description_of soup), ''rating'' \<mapsto> PFloat 0,
                    ''category'' \<mapsto> PStr (category_of soup),
                    ''availability'' \<mapsto> PBool (availability_of soup),
                    ''image_url'' \<mapsto> PStr (image_url_of soup)]))"
  using assms by (simp add: extract_fields_def print_then_quiet split: sum.splits)

lemma extract_fields_availability:
  "extract_fields w url soup = Inr r \<Longrightarrow> r ''availability'' = Some (PBool (availability_of soup))"
  by (drule extract_fields_Inr) auto

lemma extract_fields_image_url:
  "extract_fields w url soup = Inr r \<Longrightarrow> r ''image_url'' = Some (PStr (image_url_of soup))"
  by (drule extract_fields_Inr) auto

lemma extract_fields_source:
  "extract_fields w url soup = Inr r \<Longrightarrow> r ''original_url'' = Some (PStr url)"
  by (drule extract_fields_Inr) auto

lemma extract_fields_dom:
  "extract_fields w url soup = Inr r \<Longrightarrow>
     dom r = {''original_url'', ''product_name'', ''price'', ''description'', ''rating'',
              ''category'', ''availability'', ''image_url''}"
proof -
  assume "extract_fields w url soup = Inr r"
  then obtain name price where
    "r = [''original_url'' \<mapsto> PStr url, ''product_name'' \<mapsto> PStr name, ''price'' \<mapsto> PFloat price,
          ''description'' \<mapsto> PStr (description_of soup), ''rating'' \<mapsto> PFloat 0,
          ''category'' \<mapsto> PStr (category_of soup), ''availability'' \<mapsto> PBool (availability_of soup),
          ''image_url'' \<mapsto> PStr (image_url_of soup)]"
    using extract_fields_Inr by blast
  then have "dom r = {''image_url'', ''availability'', ''category'', ''rating'', ''description'',
                      ''price'', ''product_name'', ''original_url''}"
    by (simp only: dom_fun_upd dom_empty option.simps if_False)
  then show ?thesis by (simp only: insert_commute)
qed

lemma fst_parse_product_details:
  "fst (parse_product_details w url reqs) =
     (case http_get w url of
        None \<Rightarrow> print_then w (ErrorFetching url) None
      | Some html \<Rightarrow>
          if html = [] then Inr None
          else (case html_parser w html of
                  Inl e \<Rightarrow> Inl e
                | Inr soup \<Rightarrow>
                    (case extract_fields w url soup of
                       Inr r \<Rightarrow> Inr (Some r)
                     | Inl e \<Rightarrow> print_then w (ErrorParsing url e) None)))"
  by (simp add: parse_product_details_def get_page_content_def print_then_def
        split: option.splits sum.splits)

lemma snd_parse_product_details: "snd (parse_product_details w url reqs) = reqs @ [url]"
  by (simp add: parse_product_details_def get_page_content_def print_then_def
        split: option.splits sum.splits)

lemma parse_product_details_pair:
  "parse_product_details w url reqs = (fst (parse_product_details w url []), reqs @ [url])"
  by (simp add: prod_eq_iff fst_parse_product_details snd_parse_product_details)

lemma product_name_raises:
  "(\<exists>e. product_name_of soup = Inl e) \<longleftrightarrow>
     (\<exists>d. find_class ''div'' ''product-collection__title'' soup = Some d \<and> find_name ''h4'' d = None)"
  by (auto simp: product_name_of_def split: option.splits)

lemma price_of_price_text:
  "price_of soup =
     (if \<exists>c s. find_class ''div'' ''product-collection__price'' soup = Some c
              \<and> find_class ''span'' ''price--sale'' c = Some s \<and> find_all_name ''span'' s = []
      then Inl IndexError
      else (case price_text_of soup of None \<Rightarrow> Inr 0 | Some t \<Rightarrow> price_of_text t))"
  by (auto simp: price_of_def price_text_of_def split: option.splits list.splits)

lemma price_of_text_raises:
  "(\<exists>e. price_of_text t = Inl e) \<longleftrightarrow>
     (clean_price t \<noteq> [] \<and> \<not> (points (clean_price t) \<le> 1 \<and> list_ex isdigit t))"
  using clean_price_chars [of t] clean_price_has_digit [of t]
  by (auto simp: price_of_text_def float_of_def Let_def)

lemma price_raises:
  "(\<exists>e. price_of soup = Inl e) \<longleftrightarrow>
     (\<exists>c s. find_class ''div'' ''product-collection__price'' soup = Some c
           \<and> find_class ''span'' ''price--sale'' c = Some s \<and> find_all_name ''span'' s = [])
     \<or> (\<exists>t. price_text_of soup = Some t \<and> clean_price t \<noteq> []
            \<and> \<not> (points (clean_price t) \<le> 1 \<and> list_ex isdigit t))"
proof (cases "\<exists>c s. find_class ''div'' ''product-collection__price'' soup = Some c
              \<and> find_class ''span'' ''price--sale'' c = Some s \<and> find_all_name ''span'' s = []")
  case True
  then show ?thesis by (simp add: price_of_price_text)
next
  case False
  show ?thesis
  proof (cases "price_text_of soup")
    case None
    then show ?thesis using False by (auto simp: price_of_price_text)
  next
    case (Some t)
    have "price_of soup = price_of_text t"
      using False Some by (auto simp: price_of_price_text)
    then show ?thesis using False Some price_of_text_raises [of t] by auto
  qed
qed

lemma extract_fields_raises:
  assumes "\<forall>m. console w m = None"
  shows "(\<exists>e. extract_fields w url soup = Inl e) \<longleftrightarrow>
     (\<exists>e. product_name_of soup = Inl e) \<or> (\<exists>e. price_of soup = Inl e)"
  by (auto simp: extract_fields_quiet [OF assms] split: sum.splits)

lemma field_defaults:
  "find_class ''div'' ''product-collection__title'' soup = None \<Longrightarrow> product_name_of soup = Inr ''N/A''"
  "find_class ''div'' ''product-collection__title'' soup = Some d \<Longrightarrow> find_name ''h4'' d = Some h
     \<Longrightarrow> find_name ''a'' h = None \<Longrightarrow> product_name_of soup = Inr ''N/A''"
  "find_class ''div'' ''product-collection__price'' soup = None \<Longrightarrow> price_of soup = Inr 0"
  "find_class ''div'' ''product-collection__price'' soup = Some c
     \<Longrightarrow> find_class ''span'' ''price--sale'' c = None \<Longrightarrow> find_class ''span'' ''price'' c = None
     \<Longrightarrow> price_of soup = Inr 0"
  "find_class ''div'' ''product-collection__description'' soup = None \<Longrightarrow> description_of soup = ''N/A''"
  "find_class ''div'' ''product-collection__description'' soup = Some dd
     \<Longrightarrow> find_class ''p'' ''m-0'' dd = None \<Longrightarrow> description_of soup = ''N/A''"
  "find_class ''div'' ''product-collection__more-info'' soup = None \<Longrightarrow> category_of soup = ''N/A''"
  "find_class ''div'' ''product-collection__more-info'' soup = Some v
     \<Longrightarrow> find_name ''a'' v = None \<Longrightarrow> category_of soup = ''N/A''"
  "find_class ''div'' ''product-collection__availability'' soup = None \<Longrightarrow> availability_of soup = True"
  "find_class ''div'' ''product-collection__availability'' soup = Some a
     \<Longrightarrow> find_name ''span'' a = None \<Longrightarrow> availability_of soup = True"
  "find_class ''div'' ''rimage'' soup = None \<Longrightarrow> image_url_of soup = ''N/A''"
  "find_class ''div'' ''rimage'' soup = Some ri \<Longrightarrow> find_name ''img'' ri = None
     \<Longrightarrow> image_url_of soup = ''N/A''"
  "find_class ''div'' ''rimage'' soup = Some ri \<Longrightarrow> find_name ''img'' ri = Some img
     \<Longrightarrow> attr img ''data-master'' = None \<Longrightarrow> image_url_of soup = ''N/A''"
  by (simp_all add: product_name_of_def price_of_def description_of_def category_of_def
        availability_of_def image_url_of_def)

lemma price_empty_default:
  assumes "price_text_of soup = Some t" and "clean_price t = []"
  shows "price_of soup = Inr 0"
proof -
  have "\<not> (\<exists>c s. find_class ''div'' ''product-collection__price'' soup = Some c
              \<and> find_class ''span'' ''price--sale'' c = Some s \<and> find_all_name ''span'' s = [])"
    using assms(1) by (auto simp: price_text_of_def)
  then show ?thesis using assms by (auto simp: price_of_price_text price_of_text_def)
qed

lemma extract_fields_values:
  assumes "extract_fields w url soup = Inr r"
  shows "\<exists>name price. product_name_of soup = Inr name \<and> price_of soup = Inr price
     \<and> r ''original_url'' = Some (PStr url) \<and> r ''product_name'' = Some (PStr name)
     \<and> r ''price'' = Some (PFloat price)
     \<and> r ''description'' = Some (PStr (description_of soup))
     \<and> r ''rating'' = Some (PFloat 0)
     \<and> r ''category'' = Some (PStr (category_of soup))
     \<and> r ''availability'' = Some (PBool (availability_of soup))
     \<and> r ''image_url'' = Some (PStr (image_url_of soup))"
proof -
  obtain name price where np: "product_name_of soup = Inr name" "price_of soup = Inr price"
    and r: "r = [''original_url'' \<mapsto> PStr url, ''product_name'' \<mapsto> PStr name, ''price'' \<mapsto> PFloat price,
          ''description'' \<mapsto> PStr (description_of soup), ''rating'' \<mapsto> PFloat 0,
          ''category'' \<mapsto> PStr (category_of soup), ''availability'' \<mapsto> PBool (availability_of soup),
          ''image_url'' \<mapsto> PStr (image_url_of soup)]"
    using extract_fields_Inr [OF assms] by blast
  have "r ''original_url'' = Some (PStr url)" "r ''product_name'' = Some (PStr name)"
    "r ''price'' = Some (PFloat price)" "r ''description'' = Some (PStr (description_of soup))"
    "r ''rating'' = Some (PFloat 0)" "r ''category'' = Some (PStr (category_of soup))"
    "r ''availability'' = Some (PBool (availability_of soup))"
    "r ''image_url'' = Some (PStr (image_url_of soup))"
    unfolding r by simp_all
  then show ?thesis using np by blast
qed

lemma extract_fields_full:
  assumes "extract_fields w url soup = Inr r"
  shows "dom r = {''original_url'', ''product_name'', ''price'', ''description'', ''rating'',
                  ''category'', ''availability'', ''image_url''}
     \<and> r ''original_url'' = Some (PStr url)
     \<and> r ''rating'' = Some (PFloat 0)
     \<and> (find_class ''div'' ''product-collection__title'' soup = None
          \<longrightarrow> r ''product_name'' = Some (PStr ''N/A''))
     \<and> (\<forall>d h. find_class ''div'' ''product-collection__title'' soup = Some d
              \<and> find_name ''h4'' d = Some h \<and> find_name ''a'' h = None
          \<longrightarrow> r ''product_name'' = Some (PStr ''N/A''))
     \<and> (find_class ''div'' ''product-collection__price'' soup = None
          \<longrightarrow> r ''price'' = Some (PFloat 0))
     \<and> (\<forall>c. find_class ''div'' ''product-collection__price'' soup = Some c
              \<and> find_class ''span'' ''price--sale'' c = None \<and> find_class ''span'' ''price'' c = None
          \<longrightarrow> r ''price'' = Some (PFloat 0))
     \<and> (\<forall>t. price_text_of soup = Some t \<and> clean_price t = [] \<longrightarrow> r ''price'' = Some (PFloat 0))
     \<and> (find_class ''div'' ''product-collection__description'' soup = None
          \<longrightarrow> r ''description'' = Some (PStr ''N/A''))
     \<and> (\<forall>d. find_class ''div'' ''product-collection__description'' soup = Some d
              \<and> find_class ''p'' ''m-0'' d = None
          \<longrightarrow> r ''description'' = Some (PStr ''N/A''))
     \<and> (find_class ''div'' ''product-collection__more-info'' soup = None
          \<longrightarrow> r ''category'' = Some (PStr ''N/A''))
     \<and> (\<forall>d. find_class ''div'' ''product-collection__more-info'' soup = Some d
              \<and> find_name ''a'' d = None
          \<longrightarrow> r ''category'' = Some (PStr ''N/A''))
     \<and> (find_class ''div'' ''product-collection__availability'' soup = None
          \<longrightarrow> r ''availability'' = Some (PBool True))
     \<and> (\<forall>d. find_class ''div'' ''product-collection__availability'' soup = Some d
              \<and> find_name ''span'' d = None
          \<longrightarrow> r ''availability'' = Some (PBool True))
     \<and> (find_class ''div'' ''rimage'' soup = None \<longrightarrow> r ''image_url'' = Some (PStr ''N/A''))
     \<and> (\<forall>d. find_class ''div'' ''rimage'' soup = Some d \<and> find_name ''img'' d = None
          \<longrightarrow> r ''image_url'' = Some (PStr ''N/A''))
     \<and> (\<forall>d i. find_class ''div'' ''rimage'' soup = Some d \<and> find_name ''img'' d = Some i
              \<and> attr i ''data-master'' = None
          \<longrightarrow> r ''image_url'' = Some (PStr ''N/A''))"
proof -
  obtain name price where np: "product_name_of soup = Inr name" "price_of soup = Inr price"
    and v: "r ''original_url'' = Some (PStr url)" "r ''product_name'' = Some (PStr name)"
      "r ''price'' = Some (PFloat price)" "r ''description'' = Some (PStr (description_of soup))"
      "r ''rating'' = Some (PFloat 0)" "r ''category'' = Some (PStr (category_of soup))"
      "r ''availability'' = Some (PBool (availability_of soup))"
      "r ''image_url'' = Some (PStr (image_url_of soup))"
    using extract_fields_values [OF assms] by blast
  have n1: "name = ''N/A''" if "find_class ''div'' ''product-collection__title'' soup = None"
    using field_defaults(1) [OF that] np(1) by simp
  have n2: "name = ''N/A''" if "find_class ''div'' ''product-collection__title'' soup = Some d"
    "find_name ''h4'' d = Some h" "find_name ''a'' h = None" for d h
    using field_defaults(2) [OF that] np(1) by simp
  have p1: "price = 0" if "find_class ''div'' ''product-collection__price'' soup = None"
    using field_defaults(3) [OF that] np(2) by simp
  have p2: "price = 0" if "find_class ''div'' ''product-collection__price'' soup = Some c"
    "find_class ''span'' ''price--sale'' c = None" "find_class ''span'' ''price'' c = None" for c
    using field_defaults(4) [OF that] np(2) by simp
  have p3: "price = 0" if "price_text_of soup = Some t" "clean_price t = []" for t
    using price_empty_default [OF that] np(2) by simp
  have c1: "dom r = {''original_url'', ''product_name'', ''price'', ''description'', ''rating'',
                  ''category'', ''availability'', ''image_url''}"
    by (rule extract_fields_dom [OF assms])
  have c2: "r ''original_url'' = Some (PStr url)" by (rule v(1))
  have c3: "r ''rating'' = Some (PFloat 0)" by (rule v(5))
  have c4: "find_class ''div'' ''product-collection__title'' soup = None
          \<longrightarrow> r ''product_name'' = Some (PStr ''N/A'')"
    using n1 v(2) by simp
  have c5: "\<forall>d h. find_class ''div'' ''product-collection__title'' soup = Some d
              \<and> find_name ''h4'' d = Some h \<and> find_name ''a'' h = None
          \<longrightarrow> r ''product_name'' = Some (PStr ''N/A'')"
    using n2 v(2) by simp
  have c6: "find_class ''div'' ''product-collection__price'' soup = None
          \<longrightarrow> r ''price'' = Some (PFloat 0)"
    using p1 v(3) by simp
  have c7: "\<forall>c. find_class ''div'' ''product-collection__price'' soup = Some c
              \<and> find_class ''span'' ''price--sale'' c = None \<and> find_class ''span'' ''price'' c = None
          \<longrightarrow> r ''price'' = Some (PFloat 0)"
    using p2 v(3) by simp
  have c8: "\<forall>t. price_text_of soup = Some t \<and> clean_price t = [] \<longrightarrow> r ''price'' = Some (PFloat 0)"
    using p3 v(3) by simp
  have c9: "find_class ''div'' ''product-collection__description'' soup = None
          \<longrightarrow> r ''description'' = Some (PStr ''N/A'')"
    using field_defaults(5) [of soup] v(4) by simp
  have c10: "\<forall>d. find_class ''div'' ''product-collection__description'' soup = Some d
              \<and> find_class ''p'' ''m-0'' d = None
          \<longrightarrow> r ''description'' = Some (PStr ''N/A'')"
    using field_defaults(6) [of soup] v(4) by simp
  have c11: "find_class ''div'' ''product-collection__more-info'' soup = None
          \<longrightarrow> r ''category'' = Some (PStr ''N/A'')"
    using field_defaults(7) [of soup] v(6) by simp
  have c12: "\<forall>d. find_class ''div'' ''product-collection__more-info'' soup = Some d
              \<and> find_name ''a'' d = None
          \<longrightarrow> r ''category'' = Some (PStr ''N/A'')"
    using field_defaults(8) [of soup] v(6) by simp
  have c13: "find_class ''div'' ''product-collection__availability'' soup = None
          \<longrightarrow> r ''availability'' = Some (PBool True)"
    using field_defaults(9) [of soup] v(7) by simp
  have c14: "\<forall>d. find_class ''div'' ''product-collection__availability'' soup = Some d
              \<and> find_name ''span'' d = None
          \<longrightarrow> r ''availability'' = Some (PBool True)"
    using field_defaults(10) [of soup] v(7) by simp
  have c15: "find_class ''div'' ''rimage'' soup = None \<longrightarrow> r ''image_url'' = Some (PStr ''N/A'')"
    using field_defaults(11) [of soup] v(8) by simp
  have c16: "\<forall>d. find_class ''div'' ''rimage'' soup = Some d \<and> find_name ''img'' d = None
          \<longrightarrow> r ''image_url'' = Some (PStr ''N/A'')"
    using field_defaults(12) [of soup] v(8) by simp
  have c17: "\<forall>d i. find_class ''div'' ''rimage'' soup = Some d \<and> find_name ''img'' d = Some i
              \<and> attr i ''data-master'' = None
          \<longrightarrow> r ''image_url'' = Some (PStr ''N/A'')"
    using field_defaults(13) [of soup] v(8) by simp
  from c1 c2 c3 c4 c5 c6 c7 c8 c9 c10 c11 c12 c13 c14 c15 c16 c17 show ?thesis
    by (intro conjI)
qed

text \<open>
  C1, as amended. Take a fetched product-detail document, with every line printed. If
  the parser rejects it, the parser's exception leaves the extractor: the parse runs
  before the \<open>try\<close> block. If the parser accepts it, no exception leaves the extractor,
  and it returns no record exactly when a lookup inside the \<open>try\<close> block raises: the
  title block has no heading, the sale-price node has no nested span, or the cleaned
  price text is not empty and not a decimal literal. Otherwise it returns a record in
  which all eight fields are present, with the source URL, the constant rating, and the
  default of every field whose container, or whose node inside the container, the
  document lacks.
\<close>

theorem extraction_record_or_none:
  assumes "\<forall>m. console w m = None" and "http_get w url = Some html" and "html \<noteq> []"
  shows
    "(\<forall>e. html_parser w html = Inl e
         \<longrightarrow> parse_product_details w url reqs = (Inl e, reqs @ [url]))
   \<and> (\<forall>soup. html_parser w html = Inr soup \<longrightarrow>
        (\<exists>res. parse_product_details w url reqs = (Inr res, reqs @ [url])
           \<and> (case res of
                 None \<Rightarrow>
                 (\<exists>d. find_class ''div'' ''product-collection__title'' soup = Some d
                      \<and> find_name ''h4'' d = None)
               \<or> (\<exists>c s. find_class ''div'' ''product-collection__price'' soup = Some c
                      \<and> find_class ''span'' ''price--sale'' c = Some s
                      \<and> find_all_name ''span'' s = [])
               \<or> (\<exists>t. price_text_of soup = Some t \<and> clean_price t \<noteq> []
                      \<and> \<not> (points (clean_price t) \<le> 1 \<and> list_ex isdigit t))
               | Some r \<Rightarrow>
                 \<not> ((\<exists>d. find_class ''div'' ''product-collection__title'' soup = Some d
                      \<and> find_name ''h4'' d = None)
               \<or> (\<exists>c s. find_class ''div'' ''product-collection__price'' soup = Some c
                      \<and> find_class ''span'' ''price--sale'' c = Some s
                      \<and> find_all_name ''span'' s = [])
               \<or> (\<exists>t. price_text_of soup = Some t \<and> clean_price t \<noteq> []
                      \<and> \<not> (points (clean_price t) \<le> 1 \<and> list_ex isdigit t)))
               \<and> dom r = {''original_url'', ''product_name'', ''price'', ''description'', ''rating'',
                          ''category'', ''availability'', ''image_url''}
               \<and> r ''original_url'' = Some (PStr url)
               \<and> r ''rating'' = Some (PFloat 0)
               \<and> (find_class ''div'' ''product-collection__title'' soup = None
                    \<longrightarrow> r ''product_name'' = Some (PStr ''N/A''))
               \<and> (\<forall>d h. find_class ''div'' ''product-collection__title'' soup = Some d
                        \<and> find_name ''h4'' d = Some h \<and> find_name ''a'' h = None
                    \<longrightarrow> r ''product_name'' = Some (PStr ''N/A''))
               \<and> (find_class ''div'' ''product-collection__price'' soup = None
                    \<longrightarrow> r ''price'' = Some (PFloat 0))
               \<and> (\<forall>c. find_class ''div'' ''product-collection__price'' soup = Some c
                        \<and> find_class ''span'' ''price--sale'' c = None
                        \<and> find_class ''span'' ''price'' c = None
                    \<longrightarrow> r ''price'' = Some (PFloat 0))
               \<and> (\<forall>t. price_text_of soup = Some t \<and> clean_price t = []
                    \<longrightarrow> r ''price'' = Some (PFloat 0))
               \<and> (find_class ''div'' ''product-collection__description'' soup = None
                    \<longrightarrow> r ''description'' = Some (PStr ''N/A''))
               \<and> (\<forall>d. find_class ''div'' ''product-collection__description'' soup = Some d
                        \<and> find_class ''p'' ''m-0'' d = None
                    \<longrightarrow> r ''description'' = Some (PStr ''N/A''))
               \<and> (find_class ''div'' ''product-collection__more-info'' soup = None
                    \<longrightarrow> r ''category'' = Some (PStr ''N/A''))
               \<and> (\<forall>d. find_class ''div'' ''product-collection__more-info'' soup = Some d
                        \<and> find_name ''a'' d = None
                    \<longrightarrow> r ''category'' = Some (PStr ''N/A''))
               \<and> (find_class ''div'' ''product-collection__availability'' soup = None
                    \<longrightarrow> r ''availability'' = Some (PBool True))
               \<and> (\<forall>d. find_class ''div'' ''product-collection__availability'' soup = Some d
                        \<and> find_name ''span'' d = None
                    \<longrightarrow> r ''availability'' = Some (PBool True))
               \<and> (find_class ''div'' ''rimage'' soup = None
                    \<longrightarrow> r ''image_url'' = Some (PStr ''N/A''))
               \<and> (\<forall>d. find_class ''div'' ''rimage'' soup = Some d \<and> find_name ''img'' d = None
                    \<longrightarrow> r ''image_url'' = Some (PStr ''N/A''))
               \<and> (\<forall>d i. find_class ''div'' ''rimage'' soup = Some d
                        \<and> find_name ''img'' d = Some i \<and> attr i ''data-master'' = None
                    \<longrightarrow> r ''image_url'' = Some (PStr ''N/A'')))))"
proof (intro conjI allI impI, goal_cases)
  case (1 e)
  then have "fst (parse_product_details w url reqs) = Inl e"
    using assms(2,3) by (simp add: fst_parse_product_details)
  then show ?case
    using snd_parse_product_details [of w url reqs] by (simp add: prod_eq_iff)
next
  case (2 soup)
  let ?raises = "(\<exists>d. find_class ''div'' ''product-collection__title'' soup = Some d
                      \<and> find_name ''h4'' d = None)
               \<or> (\<exists>c s. find_class ''div'' ''product-collection__price'' soup = Some c
                      \<and> find_class ''span'' ''price--sale'' c = Some s
                      \<and> find_all_name ''span'' s = [])
               \<or> (\<exists>t. price_text_of soup = Some t \<and> clean_price t \<noteq> []
                      \<and> \<not> (points (clean_price t) \<le> 1 \<and> list_ex isdigit t))"
  have raises: "(\<exists>e. extract_fields w url soup = Inl e) \<longleftrightarrow> ?raises"
    unfolding extract_fields_raises [OF assms(1)] product_name_raises price_raises by blast
  show ?case
  proof (cases "extract_fields w url soup")
    case (Inl e)
    have "fst (parse_product_details w url reqs) = Inr None"
      using assms 2 Inl by (simp add: fst_parse_product_details print_then_quiet)
    then have p: "parse_product_details w url reqs = (Inr None, reqs @ [url])"
      using snd_parse_product_details [of w url reqs] by (simp add: prod_eq_iff)
    have r: "?raises" using raises Inl by blast
    show ?thesis
      by (rule exI [of _ None]) (simp only: option.case, rule conjI [OF p r])
  next
    case (Inr r)
    have "fst (parse_product_details w url reqs) = Inr (Some r)"
      using assms 2 Inr by (simp add: fst_parse_product_details)
    then have p: "parse_product_details w url reqs = (Inr (Some r), reqs @ [url])"
      using snd_parse_product_details [of w url reqs] by (simp add: prod_eq_iff)
    have nr: "\<not> (?raises)" using raises Inr by auto
    show ?thesis
      by (rule exI [of _ "Some r"])
         (simp only: option.case, rule conjI [OF p conjI [OF nr extract_fields_full [OF Inr]]])
  qed
qed

theorem extraction_record_or_none_witness:
  "\<exists>r. parse_product_details shop ''http://s.t/products/salt'' [] =
         (Inr (Some r), [''http://s.t/products/salt''])
       \<and> dom r = {''original_url'', ''product_name'', ''price'', ''description'', ''rating'',
                   ''category'', ''availability'', ''image_url''}
       \<and> r ''product_name'' = Some (PStr ''N/A'') \<and> r ''price'' = Some (PFloat 0)
       \<and> r ''availability'' = Some (PBool True) \<and> r ''image_url'' = Some (PStr ''N/A'')"
proof -
  have g: "http_get shop ''http://s.t/products/salt'' = Some ''salt''"
    by (simp add: shop_defs)
  have ne: "''salt'' \<noteq> []" by simp
  have p: "html_parser shop ''salt'' = Inr blank_page"
    by (simp add: shop_defs)
  have f: "find_class ''div'' ''product-collection__title'' blank_page = None"
    "find_class ''div'' ''product-collection__price'' blank_page = None"
    "find_class ''div'' ''product-collection__availability'' blank_page = None"
    "find_class ''div'' ''rimage'' blank_page = None"
    "price_text_of blank_page = None"
    by (simp_all add: page_defs sel_defs price_text_of_def)
  obtain res where res: "parse_product_details shop ''http://s.t/products/salt'' [] =
         (Inr res, [] @ [''http://s.t/products/salt''])"
    and c: "case res of
              None \<Rightarrow> False
            | Some r \<Rightarrow>
                dom r = {''original_url'', ''product_name'', ''price'', ''description'', ''rating'',
                         ''category'', ''availability'', ''image_url''}
              \<and> r ''product_name'' = Some (PStr ''N/A'') \<and> r ''price'' = Some (PFloat 0)
              \<and> r ''availability'' = Some (PBool True) \<and> r ''image_url'' = Some (PStr ''N/A'')"
    using extraction_record_or_none [OF shop_quiet g ne, of "[]", THEN conjunct2, rule_format, OF p]
    by (auto simp: f split: option.splits)
  then show ?thesis by (cases res) simp_all
qed

text \<open>
  C1 as stated fails twice. The page of the rice is fetched and parsed, its title block
  has no heading, the lookup raises, and no record comes back. The body of the last
  product is fetched and rejected by the parser, and the parser's exception leaves the
  extractor.
\<close>

theorem extraction_total_counterexample:
  "http_get shop ''http://s.t/products/rice'' = Some ''rice''
   \<and> html_parser shop ''rice'' = Inr no_heading_page
   \<and> product_name_of no_heading_page = Inl AttributeError
   \<and> parse_product_details shop ''http://s.t/products/rice'' [] =
       (Inr None, [''http://s.t/products/rice''])
   \<and> http_get shop ''http://s.t/products/bad'' = Some ''<![foo[bar]]>''
   \<and> parse_product_details shop ''http://s.t/products/bad'' [] =
       (Inl ParserRejectedMarkup, [''http://s.t/products/bad''])"
  by (simp add: shop_defs parse_product_details_def get_page_content_def extract_fields_def
        print_then_def product_name_of_def page_defs sel_defs)

lemma process_item_link:
  assumes "find_tag product_link item = Some t" and "attr t ''href'' = Some h"
  shows "process_item w base item (all, reqs) =
     (case absolute_url w base h of
        Inl e \<Rightarrow> (Inl e, reqs)
      | Inr u \<Rightarrow>
          if is_detail_url u
          then (case fst (parse_product_details w u reqs) of
                  Inl e \<Rightarrow> Inl e
                | Inr (Some product_details) \<Rightarrow> Inr (all @ [product_details])
                | Inr None \<Rightarrow> Inr all,
                reqs @ [u])
          else (Inr all, reqs))"
proof (cases "absolute_url w base h")
  case (Inl e)
  then show ?thesis using assms by (simp add: process_item_def)
next
  case (Inr u)
  obtain d l where dl: "parse_product_details w u reqs = (d, l)"
    by (cases "parse_product_details w u reqs")
  have "l = reqs @ [u]"
    using snd_parse_product_details [of w u reqs] dl by simp
  then show ?thesis
    using assms Inr dl by (simp add: process_item_def split: sum.splits option.splits)
qed

lemma process_item_no_link:
  "find_tag product_link item = None \<Longrightarrow> process_item w base item (all, reqs) = (Inr all, reqs)"
  by (simp add: process_item_def)




text \<open>
  C2, as amended. The cleaned price text consists of digits and decimal points, with no
  bound on the number of points; empty cleaned text gives exactly 0.0; cleaned text with
  at most one point and at least one digit parses to a non-negative number.
\<close>

theorem cleaned_price_digits_and_points:
  "list_all (\<lambda>c. isdigit c \<or> c = CHR ''.'') (clean_price price_text)
   \<and> (clean_price price_text = [] \<longrightarrow> price_of_text price_text = Inr 0)
   \<and> (points (clean_price price_text) \<le> 1
        \<and> list_ex isdigit price_text
      \<longrightarrow> (\<exists>v. price_of_text price_text = Inr v \<and> 0 \<le> v))"
proof -
  have "\<exists>v. price_of_text price_text = Inr v \<and> 0 \<le> v"
    if "points (clean_price price_text) \<le> 1"
      and "list_ex isdigit price_text"
  proof -
    have d: "list_ex isdigit (clean_price price_text)"
      using that(2) by (simp add: clean_price_has_digit)
    then have "clean_price price_text \<noteq> []" by auto
    then show ?thesis
      using float_of_ok [OF clean_price_chars that(1) d] by (simp add: price_of_text_def)
  qed
  then show ?thesis
    by (simp add: clean_price_chars price_of_text_def)
qed

theorem cleaned_price_digits_and_points_witness:
  "clean_price ''N/A'' = [] \<and> price_of_text ''N/A'' = Inr 0
   \<and> clean_price ''$ 12.50'' = ''12.50''
   \<and> (\<exists>v. price_of_text ''$ 12.50'' = Inr v \<and> 0 \<le> v)"
  using cleaned_price_digits_and_points [of "''N/A''"]
    cleaned_price_digits_and_points [of "''$ 12.50''"]
  by (simp add: clean_price_def isdigit_def points_def)

text \<open>
  C2 as stated fails: the text \<open>Rs. 1,299.00\<close> is cleaned to \<open>.1299.00\<close>, which has two
  decimal points, and parsing it raises instead of giving 0.0.
\<close>

theorem cleaned_price_counterexample:
  "clean_price ''Rs. 1,299.00'' = ''.1299.00''
   \<and> points (clean_price ''Rs. 1,299.00'') = 2
   \<and> price_of_text ''Rs. 1,299.00'' = Inl ValueError"
  by (simp add: str_defs)

lemma lower_out_of_stock: "lower ''Out of stock'' = ''out of stock''"
  by code_simp

lemma lower_5_in_stock: "lower ''5 In Stock'' = ''5 in stock''"
  by code_simp

lemma not_in_out_of_stock: "\<not> contains ''out of stock'' ''in stock''"
  by (simp add: startswith_def)

lemma in_5_in_stock: "contains ''5 in stock'' ''in stock''"
  by (simp add: startswith_def)

text \<open>
  C5. With no availability block, or a block without a text node, the record's
  availability is true; with a text node it is true exactly when the lower-cased text
  of the node contains \<open>in stock\<close>: false for \<open>Out of stock\<close>, true for \<open>5 In Stock\<close>.
\<close>

theorem availability_truth_table:
  assumes "extract_fields w url soup = Inr r"
  shows "(find_class ''div'' ''product-collection__availability'' soup = None
            \<longrightarrow> r ''availability'' = Some (PBool True))
       \<and> (\<forall>d. find_class ''div'' ''product-collection__availability'' soup = Some d \<longrightarrow>
              (find_name ''span'' d = None \<longrightarrow> r ''availability'' = Some (PBool True))
            \<and> (\<forall>sp. find_name ''span'' d = Some sp \<longrightarrow>
                   r ''availability'' =
                     Some (PBool (\<exists>p q. lower (get_text sp) = p @ ''in stock'' @ q))
                 \<and> (get_text sp = ''Out of stock'' \<longrightarrow> r ''availability'' = Some (PBool False))
                 \<and> (get_text sp = ''5 In Stock'' \<longrightarrow> r ''availability'' = Some (PBool True))))"
proof -
  let ?div = "find_class ''div'' ''product-collection__availability'' soup"
  have a: "r ''availability'' = Some (PBool (availability_of soup))"
    using assms by (rule extract_fields_availability)
  have none: "availability_of soup = True" if "?div = None"
    using that by (simp add: availability_of_def)
  have nospan: "availability_of soup = True" if "?div = Some d" "find_name ''span'' d = None" for d
    using that by (simp add: availability_of_def)
  have span: "availability_of soup = (\<exists>p q. lower (get_text sp) = p @ ''in stock'' @ q)"
    if "?div = Some d" "find_name ''span'' d = Some sp" for d sp
    using that by (simp only: availability_of_def option.case contains_iff)
  have out: "(\<exists>p q. lower ''Out of stock'' = p @ ''in stock'' @ q) = False"
    using not_in_out_of_stock by (simp only: contains_iff lower_out_of_stock)
  have inn: "(\<exists>p q. lower ''5 In Stock'' = p @ ''in stock'' @ q) = True"
    using in_5_in_stock by (simp only: contains_iff lower_5_in_stock)
  show ?thesis
  proof (intro conjI allI impI)
    assume "?div = None"
    then show "r ''availability'' = Some (PBool True)" by (simp only: a none)
  next
    fix d assume "?div = Some d" "find_name ''span'' d = None"
    then show "r ''availability'' = Some (PBool True)" by (simp only: a nospan)
  next
    fix d sp assume "?div = Some d" "find_name ''span'' d = Some sp"
    then show "r ''availability'' = Some (PBool (\<exists>p q. lower (get_text sp) = p @ ''in stock'' @ q))"
      by (simp only: a span)
  next
    fix d sp assume "?div = Some d" "find_name ''span'' d = Some sp" "get_text sp = ''Out of stock''"
    then show "r ''availability'' = Some (PBool False)" by (simp only: a span out)
  next
    fix d sp assume "?div = Some d" "find_name ''span'' d = Some sp" "get_text sp = ''5 In Stock''"
    then show "r ''availability'' = Some (PBool True)" by (simp only: a span inn)
  qed
qed

theorem availability_truth_table_witness:
  "(\<exists>r. extract_fields shop ''u'' tea_page = Inr r \<and> r ''availability'' = Some (PBool True))
   \<and> (\<exists>r. extract_fields shop ''u'' lentils_page = Inr r \<and> r ''availability'' = Some (PBool False))
   \<and> (\<exists>r. extract_fields shop ''u'' blank_page = Inr r \<and> r ''availability'' = Some (PBool True))"
proof -
  obtain r1 where r1: "extract_fields shop ''u'' tea_page = Inr r1"
    by (simp add: extract_fields_quiet [OF shop_quiet] product_name_of_def price_of_def page_defs sel_defs str_defs)
  obtain r2 where r2: "extract_fields shop ''u'' lentils_page = Inr r2"
    by (simp add: extract_fields_quiet [OF shop_quiet] product_name_of_def price_of_def page_defs sel_defs str_defs)
  obtain r3 where r3: "extract_fields shop ''u'' blank_page = Inr r3"
    by (simp add: extract_fields_quiet [OF shop_quiet] product_name_of_def price_of_def page_defs sel_defs str_defs)
  have d1: "find_class ''div'' ''product-collection__availability'' tea_page =
              Some (availability_block ''5 In Stock'')"
    and d2: "find_class ''div'' ''product-collection__availability'' lentils_page =
              Some (availability_block ''Out of stock'')"
    and d3: "find_class ''div'' ''product-collection__availability'' blank_page = None"
    by (simp_all add: page_defs sel_defs)
  have s: "find_name ''span'' (availability_block x) = Some (elem ''span'' [] [NavigableString x])"
    for x by (simp add: page_defs sel_defs)
  have t: "get_text (elem ''span'' [] [NavigableString x]) = x" for x
    by (simp add: elem_def)
  have "r1 ''availability'' = Some (PBool True)"
    by (rule availability_truth_table [OF r1, THEN conjunct2, rule_format, OF d1,
          THEN conjunct2, rule_format, OF s, THEN conjunct2, THEN conjunct2, rule_format, OF t])
  moreover have "r2 ''availability'' = Some (PBool False)"
    by (rule availability_truth_table [OF r2, THEN conjunct2, rule_format, OF d2,
          THEN conjunct2, rule_format, OF s, THEN conjunct2, THEN conjunct1, rule_format, OF t])
  moreover have "r3 ''availability'' = Some (PBool True)"
    by (rule availability_truth_table [OF r3, THEN conjunct1, rule_format, OF d3])
  ultimately show ?thesis using r1 r2 r3 by simp
qed

lemma replace_keeps_http:
  "replace (''http://'' @ q) ''{width}x'' new = ''http://'' @ replace q ''{width}x'' new"
  "replace (''https://'' @ q) ''{width}x'' new = ''https://'' @ replace q ''{width}x'' new"
  by (simp_all add: startswith_def)

lemma normalize_image_url_cases:
  "startswith (replace d ''{width}x'' ''1000x'') ''//''
     \<Longrightarrow> normalize_image_url d = ''https:'' @ replace d ''{width}x'' ''1000x''"
  "\<not> startswith (replace d ''{width}x'' ''1000x'') ''//''
     \<Longrightarrow> normalize_image_url d = replace d ''{width}x'' ''1000x''"
  by (simp_all add: normalize_image_url_def)

lemma normalize_not_relative: "\<not> startswith (normalize_image_url d) ''//''"
  by (cases "startswith (replace d ''{width}x'' ''1000x'') ''//''")
     (simp_all add: normalize_image_url_cases, simp add: startswith_def)

lemma image_url_of_not_relative: "\<not> startswith (image_url_of soup) ''//''"
  using normalize_not_relative
  by (simp add: image_url_of_def Let_def split: option.splits) (simp add: startswith_def)

lemma scrape_image_url_http:
  assumes "scrape_image_url x = Some u"
  shows "startswith u ''http''"
proof -
  obtain d where d: "x = Some d" "d \<noteq> []"
    using assms by (auto simp: scrape_image_url_def split: option.splits if_splits)
  show ?thesis
  proof (cases "startswith (replace d ''{width}x'' ''1024x'') ''http''")
    case True
    then show ?thesis using assms d by (simp add: scrape_image_url_def Let_def)
  next
    case False
    then have "u = ''https:'' @ replace d ''{width}x'' ''1024x''"
      using assms d by (simp add: scrape_image_url_def Let_def)
    then show ?thesis by (simp add: startswith_def)
  qed
qed

text \<open>
  C6, as amended. With the width placeholder substituted, a source that starts with
  \<open>//\<close> gets \<open>https:\<close> in front and then starts with \<open>https://\<close>; any other source
  is emitted as it is, and one without a placeholder unchanged; a source that starts with
  \<open>http://\<close> or \<open>https://\<close> keeps that start. So no emitted image URL is
  protocol-relative, in the static extractor's records and in the rendering session,
  whose URLs always start with \<open>http\<close>.
\<close>

theorem image_url_never_protocol_relative:
  "(startswith (replace d ''{width}x'' ''1000x'') ''//''
      \<longrightarrow> normalize_image_url d = ''https:'' @ replace d ''{width}x'' ''1000x''
          \<and> startswith (normalize_image_url d) ''https://'')
   \<and> (\<not> startswith (replace d ''{width}x'' ''1000x'') ''//''
      \<longrightarrow> normalize_image_url d = replace d ''{width}x'' ''1000x'')
   \<and> (\<not> contains d ''{width}x'' \<and> \<not> startswith d ''//'' \<longrightarrow> normalize_image_url d = d)
   \<and> (startswith d ''http://'' \<longrightarrow> startswith (normalize_image_url d) ''http://'')
   \<and> (startswith d ''https://'' \<longrightarrow> startswith (normalize_image_url d) ''https://'')
   \<and> normalize_image_url ''//cdn.site.com/img.jpg'' = ''https://cdn.site.com/img.jpg''
   \<and> \<not> startswith (normalize_image_url d) ''//''
   \<and> (extract_fields w url soup = Inr r
      \<longrightarrow> r ''image_url'' = Some (PStr (image_url_of soup)) \<and> \<not> startswith (image_url_of soup) ''//'')
   \<and> (scrape_image_url x = Some u \<longrightarrow> startswith u ''http'')"
proof -
  have rel: "startswith (normalize_image_url d) ''https://''"
    if h: "startswith (replace d ''{width}x'' ''1000x'') ''//''"
  proof -
    obtain q where "replace d ''{width}x'' ''1000x'' = ''//'' @ q"
      using h unfolding startswith_iff by blast
    then have "normalize_image_url d = ''https://'' @ q"
      using h by (simp add: normalize_image_url_cases)
    then show ?thesis by (simp add: startswith_def)
  qed
  have same: "normalize_image_url d = d" if "\<not> contains d ''{width}x''" "\<not> startswith d ''//''"
  proof -
    have "replace d ''{width}x'' ''1000x'' = d"
      using that(1) by (simp add: replace_absent)
    then show ?thesis using that(2) by (simp add: normalize_image_url_def)
  qed
  have http: "startswith (normalize_image_url d) ''http://''" if h: "startswith d ''http://''"
  proof -
    obtain q where q: "d = ''http://'' @ q" using h unfolding startswith_iff by blast
    have "replace d ''{width}x'' ''1000x'' = ''http://'' @ replace q ''{width}x'' ''1000x''"
      unfolding q by (rule replace_keeps_http)
    then show ?thesis by (simp add: normalize_image_url_def startswith_def)
  qed
  have https: "startswith (normalize_image_url d) ''https://''" if h: "startswith d ''https://''"
  proof -
    obtain q where q: "d = ''https://'' @ q" using h unfolding startswith_iff by blast
    have "replace d ''{width}x'' ''1000x'' = ''https://'' @ replace q ''{width}x'' ''1000x''"
      unfolding q by (rule replace_keeps_http)
    then show ?thesis by (simp add: normalize_image_url_def startswith_def)
  qed
  have cdn: "normalize_image_url ''//cdn.site.com/img.jpg'' = ''https://cdn.site.com/img.jpg''"
    by (simp add: normalize_image_url_def startswith_def)
  show ?thesis
    using rel same http https cdn normalize_not_relative [of d] image_url_of_not_relative [of soup]
      extract_fields_image_url [of w url soup r] scrape_image_url_http [of x u]
      normalize_image_url_cases [of d]
    by blast
qed

theorem image_url_never_protocol_relative_witness:
  "normalize_image_url ''//cdn.site.com/tea_{width}x.jpg'' = ''https://cdn.site.com/tea_1000x.jpg''
   \<and> normalize_image_url ''http://cdn.site.com/img.jpg'' = ''http://cdn.site.com/img.jpg''
   \<and> scrape_image_url (Some ''//cdn.site.com/tea_{width}x.jpg'') = Some ''https://cdn.site.com/tea_1024x.jpg''
   \<and> startswith ''https://cdn.site.com/tea_1024x.jpg'' ''http''"
proof -
  have r: "replace ''//cdn.site.com/tea_{width}x.jpg'' ''{width}x'' ''1000x'' = ''//cdn.site.com/tea_1000x.jpg''"
    by (simp add: startswith_def)
  have s: "startswith ''//cdn.site.com/tea_1000x.jpg'' ''//''"
    by (simp add: startswith_def)
  have c: "\<not> contains ''http://cdn.site.com/img.jpg'' ''{width}x''"
    "\<not> startswith ''http://cdn.site.com/img.jpg'' ''//''"
    by (simp_all add: startswith_def)
  have x: "scrape_image_url (Some ''//cdn.site.com/tea_{width}x.jpg'') = Some ''https://cdn.site.com/tea_1024x.jpg''"
    by (simp add: scrape_image_url_def startswith_def)
  have 1: "normalize_image_url ''//cdn.site.com/tea_{width}x.jpg'' = ''https://cdn.site.com/tea_1000x.jpg''"
    using image_url_never_protocol_relative [of "''//cdn.site.com/tea_{width}x.jpg''", THEN conjunct1]
    by (simp only: r s) simp
  have 2: "normalize_image_url ''http://cdn.site.com/img.jpg'' = ''http://cdn.site.com/img.jpg''"
    by (rule image_url_never_protocol_relative [of "''http://cdn.site.com/img.jpg''",
          THEN conjunct2, THEN conjunct2, THEN conjunct1, rule_format, OF conjI, OF c])
  have 3: "startswith ''https://cdn.site.com/tea_1024x.jpg'' ''http''"
    by (rule image_url_never_protocol_relative [THEN conjunct2, THEN conjunct2, THEN conjunct2,
          THEN conjunct2, THEN conjunct2, THEN conjunct2, THEN conjunct2, THEN conjunct2,
          rule_format, OF x])
  show ?thesis using 1 2 3 x by (simp only: simp_thms)
qed

text \<open>
  C6 as stated fails: the lentils page gives its image as a site-relative path, which is
  emitted as it is: not the default, and with no protocol.
\<close>

theorem image_url_qualified_counterexample:
  "html_parser shop ''lentils'' = Inr lentils_page
   \<and> \<not> isl (fst (parse_product_details shop ''http://s.t/products/lentils'' []))
   \<and> projr (fst (parse_product_details shop ''http://s.t/products/lentils'' [])) \<noteq> None
   \<and> the (projr (fst (parse_product_details shop ''http://s.t/products/lentils'' []))) ''image_url''
       = Some (PStr ''/img/lentils.jpg'')
   \<and> ''/img/lentils.jpg'' \<noteq> ''N/A''
   \<and> \<not> startswith ''/img/lentils.jpg'' ''https://''
   \<and> \<not> startswith ''/img/lentils.jpg'' ''http://''"
proof -
  have g: "http_get shop ''http://s.t/products/lentils'' = Some ''lentils''"
    by (simp add: shop_defs)
  have p: "html_parser shop ''lentils'' = Inr lentils_page"
    by (simp add: shop_defs)
  obtain r where r: "extract_fields shop ''http://s.t/products/lentils'' lentils_page = Inr r"
    and i: "r ''image_url'' = Some (PStr ''/img/lentils.jpg'')"
    by (simp add: extract_fields_quiet [OF shop_quiet] product_name_of_def price_of_def
          image_url_of_def normalize_image_url_def page_defs sel_defs str_defs)
  have f: "fst (parse_product_details shop ''http://s.t/products/lentils'' []) = Inr (Some r)"
    by (simp add: fst_parse_product_details g p r)
  show ?thesis by (simp add: f p i startswith_def)
qed

lemma find_tag_Some: "find_tag P x = Some t \<Longrightarrow> P t"
proof -
  assume "find_tag P x = Some t"
  then obtain ys where "filter P (descendants x) = t # ys"
    by (auto simp: find_tag_def find_all_def split: list.splits)
  then show "P t" by (auto dest: filter_eq_ConsD)
qed

lemma product_link_href:
  "find_tag product_link item = Some t \<Longrightarrow> \<exists>h. attr t ''href'' = Some h \<and> contains h ''/products/''"
  by (drule find_tag_Some) (auto simp: product_link_def split: option.splits)

lemma is_detail_url_iff:
  "is_detail_url u = ((\<exists>p q. u = p @ ''/products/'' @ q) \<and> \<not> (u \<noteq> [] \<and> last u = CHR ''/''))"
  by (simp only: is_detail_url_def contains_iff endswith_slash)

lemma collection_not_detail: "\<not> is_detail_url (host @ ''/products/summer-collection/'')"
  by (simp add: is_detail_url_iff)

text \<open>
  C7. A card with no product link causes no request. For a card with one, whose link
  resolves, the detail page is requested and extracted exactly when the resolved URL is a
  detail URL, that is, when it contains \<open>/products/\<close> and does not end in a slash;
  otherwise nothing is requested and nothing collected. A link to
  \<open>/products/summer-collection/\<close> is not a detail URL, whatever the host.
\<close>

theorem detail_fetch_iff_detail_url:
  "(find_tag product_link item = None \<longrightarrow> process_item w base item (all, reqs) = (Inr all, reqs))
   \<and> (\<forall>t. find_tag product_link item = Some t \<longrightarrow>
          (\<exists>h. attr t ''href'' = Some h
             \<and> process_item w base item (all, reqs) =
                 (case absolute_url w base h of
                    Inl e \<Rightarrow> (Inl e, reqs)
                  | Inr u \<Rightarrow>
                      if is_detail_url u
                      then (case fst (parse_product_details w u reqs) of
                              Inl e \<Rightarrow> Inl e
                            | Inr (Some product_details) \<Rightarrow> Inr (all @ [product_details])
                            | Inr None \<Rightarrow> Inr all,
                            reqs @ [u])
                      else (Inr all, reqs))))
   \<and> is_detail_url u = ((\<exists>p q. u = p @ ''/products/'' @ q) \<and> \<not> (u \<noteq> [] \<and> last u = CHR ''/''))
   \<and> \<not> is_detail_url (host @ ''/products/summer-collection/'')"
proof -
  have "\<exists>h. attr t ''href'' = Some h
             \<and> process_item w base item (all, reqs) =
                 (case absolute_url w base h of
                    Inl e \<Rightarrow> (Inl e, reqs)
                  | Inr u \<Rightarrow>
                      if is_detail_url u
                      then (case fst (parse_product_details w u reqs) of
                              Inl e \<Rightarrow> Inl e
                            | Inr (Some product_details) \<Rightarrow> Inr (all @ [product_details])
                            | Inr None \<Rightarrow> Inr all,
                            reqs @ [u])
                      else (Inr all, reqs))"
    if t: "find_tag product_link item = Some t" for t
  proof -
    obtain h where h: "attr t ''href'' = Some h" using product_link_href [OF t] by auto
    show ?thesis using process_item_link [OF t h, of w base all reqs] h by (intro exI [of _ h]) simp
  qed
  then show ?thesis
    using process_item_no_link [of item w base all reqs] is_detail_url_iff [of u]
      collection_not_detail [of host]
    by (intro conjI impI allI) assumption+
qed

theorem detail_fetch_iff_detail_url_witness:
  "snd (process_item shop shop_url (card ''/products/tea'') ([], [])) = [''http://s.t/products/tea'']
   \<and> process_item shop shop_url (card ''/products/summer-collection/'') ([], []) = (Inr [], [])"
proof -
  have f: "find_tag product_link (card x) = Some (Tag ''a'' [] [(''href'', x)] [NavigableString ''view''])"
    if "contains x ''/products/''" for x
    using that by (simp add: card_def elem_def sel_defs product_link_def)
  have c: "contains ''/products/tea'' ''/products/''"
    "contains ''/products/summer-collection/'' ''/products/''"
    by (simp_all add: startswith_def)
  have a: "attr (Tag ''a'' [] [(''href'', x)] [NavigableString ''view'']) ''href'' = Some h \<Longrightarrow> h = x"
    for x h by (simp add: attr_def)
  have u: "absolute_url shop shop_url ''/products/tea'' = Inr ''http://s.t/products/tea''"
    "absolute_url shop shop_url ''/products/summer-collection/'' =
       Inr ''http://s.t/products/summer-collection/''"
    by (simp_all add: absolute_url_def shop_defs startswith_def)
  have d: "is_detail_url ''http://s.t/products/tea''"
    "\<not> is_detail_url ''http://s.t/products/summer-collection/''"
    by (simp_all add: is_detail_url_def startswith_def endswith_def)
  obtain h1 where h1: "attr (Tag ''a'' [] [(''href'', ''/products/tea'')] [NavigableString ''view'']) ''href'' = Some h1"
    "process_item shop shop_url (card ''/products/tea'') ([], []) =
                 (case absolute_url shop shop_url h1 of
                    Inl e \<Rightarrow> (Inl e, [])
                  | Inr u \<Rightarrow>
                      if is_detail_url u
                      then (case fst (parse_product_details shop u []) of
                              Inl e \<Rightarrow> Inl e
                            | Inr (Some product_details) \<Rightarrow> Inr ([] @ [product_details])
                            | Inr None \<Rightarrow> Inr [],
                            [] @ [u])
                      else (Inr [], []))"
    using detail_fetch_iff_detail_url [of "card ''/products/tea''" shop shop_url "[]" "[]",
        THEN conjunct2, THEN conjunct1, rule_format, OF f [OF c(1)]] by auto
  obtain h2 where h2: "attr (Tag ''a'' [] [(''href'', ''/products/summer-collection/'')] [NavigableString ''view'']) ''href'' = Some h2"
    "process_item shop shop_url (card ''/products/summer-collection/'') ([], []) =
                 (case absolute_url shop shop_url h2 of
                    Inl e \<Rightarrow> (Inl e, [])
                  | Inr u \<Rightarrow>
                      if is_detail_url u
                      then (case fst (parse_product_details shop u []) of
                              Inl e \<Rightarrow> Inl e
                            | Inr (Some product_details) \<Rightarrow> Inr ([] @ [product_details])
                            | Inr None \<Rightarrow> Inr [],
                            [] @ [u])
                      else (Inr [], []))"
    using detail_fetch_iff_detail_url [of "card ''/products/summer-collection/''" shop shop_url "[]" "[]",
        THEN conjunct2, THEN conjunct1, rule_format, OF f [OF c(2)]] by auto
  have "h1 = ''/products/tea''" using h1(1) by (rule a)
  moreover have "h2 = ''/products/summer-collection/''" using h2(1) by (rule a)
  ultimately show ?thesis using h1(2) h2(2) by (simp add: u d)
qed

lemma fst_process_item:
  "fst (process_item w b i (all, reqs)) = map_sum id ((@) all) (fst (process_item w b i ([], [])))"
proof (cases "find_tag product_link i")
  case None
  then show ?thesis by (simp add: process_item_no_link)
next
  case (Some t)
  then obtain h where h: "attr t ''href'' = Some h" using product_link_href by blast
  have r: "fst (parse_product_details w u reqs) = fst (parse_product_details w u [])" for u
    by (simp add: fst_parse_product_details)
  show ?thesis
    unfolding process_item_link [OF Some h]
    by (simp add: r split: sum.splits option.splits)
qed

lemma card_url_link:
  assumes "find_tag product_link i = Some t" and "attr t ''href'' = Some h"
  shows "card_url w b i =
     (case absolute_url w b h of Inl e \<Rightarrow> None | Inr u \<Rightarrow> if is_detail_url u then Some u else None)"
  using assms by (simp add: card_url_def)

lemma detail_urls_single:
  "detail_urls w b [i] = (case card_url w b i of None \<Rightarrow> [] | Some u \<Rightarrow> [u])"
  by (simp add: detail_urls_def)

lemma detail_urls_Cons: "detail_urls w b (i # items) = detail_urls w b [i] @ detail_urls w b items"
  by (simp add: detail_urls_def)

lemma length_detail_urls: "length (detail_urls w b items) \<le> length items"
proof (induction items)
  case Nil
  then show ?case by (simp add: detail_urls_def)
next
  case (Cons i items)
  have "length (detail_urls w b [i]) \<le> 1"
    by (simp add: detail_urls_single split: option.splits)
  then show ?case using Cons by (simp add: detail_urls_Cons [of w b i items])
qed

lemma snd_process_item:
  "\<exists>new. snd (process_item w b i (all, reqs)) = reqs @ new \<and> length new \<le> 1"
proof (cases "find_tag product_link i")
  case None
  then show ?thesis by (simp add: process_item_no_link)
next
  case (Some t)
  then obtain h where h: "attr t ''href'' = Some h" using product_link_href by blast
  show ?thesis
    unfolding process_item_link [OF Some h] by (simp split: sum.splits)
qed

lemma process_item_ok:
  assumes "fst (process_item w b i ([], [])) = Inr x"
  shows "x = concat (map (records_at w) (detail_urls w b [i]))
       \<and> snd (process_item w b i (all, reqs)) = reqs @ detail_urls w b [i]"
proof (cases "find_tag product_link i")
  case None
  then show ?thesis
    using assms by (simp add: process_item_no_link detail_urls_single card_url_def)
next
  case (Some t)
  then obtain h where h: "attr t ''href'' = Some h" using product_link_href by blast
  show ?thesis
  proof (cases "absolute_url w b h")
    case (Inl e)
    then show ?thesis using assms by (simp add: process_item_link [OF Some h])
  next
    case (Inr u)
    show ?thesis
    proof (cases "is_detail_url u")
      case False
      then show ?thesis
        using assms Inr
        by (simp add: process_item_link [OF Some h] detail_urls_single card_url_link [OF Some h])
    next
      case True
      have r: "fst (parse_product_details w u reqs) = fst (parse_product_details w u [])"
        by (simp add: fst_parse_product_details)
      show ?thesis
        using assms Inr True
        by (auto simp: process_item_link [OF Some h] detail_urls_single
              card_url_link [OF Some h] records_at_def r split: sum.splits option.splits)
    qed
  qed
qed

lemma fst_process_items:
  "fst (process_items w b items (all, reqs)) =
     map_sum id ((@) all) (fst (process_items w b items ([], [])))"
proof (induction items arbitrary: all reqs)
  case Nil
  then show ?case by simp
next
  case (Cons i items)
  obtain o1 r1 where p1: "process_item w b i (all, reqs) = (o1, r1)"
    by (cases "process_item w b i (all, reqs)")
  obtain o0 r0 where p0: "process_item w b i ([], []) = (o0, r0)"
    by (cases "process_item w b i ([], [])")
  have o: "o1 = map_sum id ((@) all) o0"
    using fst_process_item [of w b i all reqs] p1 p0 by simp
  show ?case
  proof (cases o0)
    case (Inl e)
    then show ?thesis using o p1 p0 by simp
  next
    case (Inr a0)
    have "fst (process_items w b items (all @ a0, r1)) =
            map_sum id ((@) (all @ a0)) (fst (process_items w b items ([], [])))"
      by (rule Cons.IH)
    moreover have "fst (process_items w b items (a0, r0)) =
            map_sum id ((@) a0) (fst (process_items w b items ([], [])))"
      by (rule Cons.IH)
    ultimately show ?thesis
      using o p1 p0 Inr by (cases "fst (process_items w b items ([], []))") simp_all
  qed
qed

lemma process_items_ok:
  assumes "fst (process_items w b items ([], [])) = Inr x"
  shows "x = concat (map (records_at w) (detail_urls w b items))
       \<and> snd (process_items w b items (all, reqs)) = reqs @ detail_urls w b items"
  using assms
proof (induction items arbitrary: x all reqs)
  case Nil
  then show ?case by (simp add: detail_urls_def)
next
  case (Cons i items)
  obtain o0 r0 where p0: "process_item w b i ([], []) = (o0, r0)"
    by (cases "process_item w b i ([], [])")
  obtain a0 where a0: "o0 = Inr a0"
    using Cons.prems p0 by (cases o0) simp_all
  have i0: "a0 = concat (map (records_at w) (detail_urls w b [i]))"
    and i1: "snd (process_item w b i (all, reqs)) = reqs @ detail_urls w b [i]"
    using process_item_ok [of w b i a0 all reqs] p0 a0 by simp_all
  have f1: "fst (process_item w b i (all, reqs)) = Inr (all @ a0)"
    using fst_process_item [of w b i all reqs] p0 a0 by simp
  have "fst (process_items w b items (a0, r0)) = Inr x"
    using Cons.prems p0 a0 by simp
  then obtain x' where x': "fst (process_items w b items ([], [])) = Inr x'" and x: "x = a0 @ x'"
    using fst_process_items [of w b items a0 r0]
    by (cases "fst (process_items w b items ([], []))") auto
  have ih: "x' = concat (map (records_at w) (detail_urls w b items))"
    "snd (process_items w b items (all @ a0, reqs @ detail_urls w b [i])) =
       (reqs @ detail_urls w b [i]) @ detail_urls w b items"
    using Cons.IH [OF x'] by simp_all
  have "process_item w b i (all, reqs) = (Inr (all @ a0), reqs @ detail_urls w b [i])"
    using f1 i1 by (simp add: prod_eq_iff)
  then show ?case
    using x i0 ih by (simp add: detail_urls_Cons [of w b i items])
qed

lemma snd_process_items:
  "\<exists>new. snd (process_items w b items (all, reqs)) = reqs @ new \<and> length new \<le> length items"
proof (induction items arbitrary: all reqs)
  case Nil
  then show ?case by simp
next
  case (Cons i items)
  obtain o1 r1 where p1: "process_item w b i (all, reqs) = (o1, r1)"
    by (cases "process_item w b i (all, reqs)")
  obtain n1 where n1: "r1 = reqs @ n1" "length n1 \<le> 1"
    using snd_process_item [of w b i all reqs] p1 by auto
  show ?case
  proof (cases o1)
    case (Inl e)
    then show ?thesis using p1 n1 by (intro exI [of _ n1]) simp
  next
    case (Inr a1)
    obtain n2 where n2: "snd (process_items w b items (a1, r1)) = r1 @ n2" "length n2 \<le> length items"
      using Cons.IH [of a1 r1] by auto
    have "snd (process_items w b (i # items) (all, reqs)) = reqs @ (n1 @ n2)"
      using p1 Inr n1 n2 by simp
    moreover have "length (n1 @ n2) \<le> length (i # items)" using n1 n2 by simp
    ultimately show ?thesis by blast
  qed
qed

lemma get_page_content_quiet:
  "\<forall>m. console w m = None \<Longrightarrow> get_page_content w url reqs = (Inr (http_get w url), reqs @ [url])"
  by (simp add: get_page_content_def print_then_quiet split: option.splits)

lemma crawl_loop_failed:
  assumes "\<forall>m. console w m = None" and "listing_soup w base n = None"
  shows "crawl_loop w base n all reqs = Some (Inr (all, FetchFailed), reqs @ [current_page_url base n])"
proof -
  have c: "console w m = None" for m using assms(1) by simp
  have "http_get w (current_page_url base n) = None \<or> http_get w (current_page_url base n) = Some []"
    using assms(2) by (auto simp: listing_soup_def split: option.splits if_splits)
  then show ?thesis
  proof
    assume h: "http_get w (current_page_url base n) = None"
    show ?thesis
      by (subst crawl_loop.simps)
         (simp add: c get_page_content_quiet [OF assms(1)] h print_then_quiet)
  next
    assume h: "http_get w (current_page_url base n) = Some []"
    show ?thesis
      by (subst crawl_loop.simps)
         (simp add: c get_page_content_quiet [OF assms(1)] h print_then_quiet)
  qed
qed

lemma crawl_loop_rejected:
  assumes "\<forall>m. console w m = None" and "listing_soup w base n = Some (Inl e)"
  shows "crawl_loop w base n all reqs = Some (Inl e, reqs @ [current_page_url base n])"
proof -
  have c: "console w m = None" for m using assms(1) by simp
  obtain html where h: "http_get w (current_page_url base n) = Some html" "html \<noteq> []"
    "html_parser w html = Inl e"
    using assms(2) by (auto simp: listing_soup_def split: option.splits if_splits)
  show ?thesis
    by (subst crawl_loop.simps) (simp add: c get_page_content_quiet [OF assms(1)] h)
qed

lemma crawl_loop_page:
  assumes "\<forall>m. console w m = None" and "listing_soup w base n = Some (Inr soup)"
  shows "crawl_loop w base n all reqs =
       (if product_list_items soup = []
        then Some (Inr (all, NoProducts), reqs @ [current_page_url base n])
        else (case process_items w base (product_list_items soup)
                     (all, reqs @ [current_page_url base n]) of
                (Inl e, r2) \<Rightarrow> Some (Inl e, r2)
              | (Inr a2, r2) \<Rightarrow>
                  (case next_page_link_element soup of
                     None \<Rightarrow> Some (Inr (a2, NoNextLink), r2)
                   | Some link \<Rightarrow>
                       if link = [] then Some (Inr (a2, NoNextLink), r2)
                       else (case absolute_url w base link of
                               Inl e \<Rightarrow> Some (Inl e, r2)
                             | Inr u \<Rightarrow>
                                 if u = current_page_url base n
                                 then Some (Inr (a2, SameNextPage), r2)
                                 else crawl_loop w base (n + 1) a2 r2))))"
proof -
  have c: "console w m = None" for m using assms(1) by simp
  obtain html where h: "http_get w (current_page_url base n) = Some html" "html \<noteq> []"
    "html_parser w html = Inr soup"
    using assms(2) by (auto simp: listing_soup_def split: option.splits if_splits)
  show ?thesis
  proof (cases "product_list_items soup = []")
    case True
    then show ?thesis
      by (subst crawl_loop.simps)
         (simp add: c get_page_content_quiet [OF assms(1)] h print_all_quiet [OF assms(1)])
  next
    case False
    obtain o2 r2 where p: "process_items w base (product_list_items soup)
        (all, reqs @ [current_page_url base n]) = (o2, r2)"
      by (cases "process_items w base (product_list_items soup) (all, reqs @ [current_page_url base n])")
    show ?thesis
    proof (cases o2)
      case (Inl e)
      then show ?thesis
        using False
        by (subst crawl_loop.simps) (simp add: c get_page_content_quiet [OF assms(1)] h p)
    next
      case (Inr a2)
      note o2 = Inr
      show ?thesis
      proof (cases "next_page_link_element soup")
        case None
        then show ?thesis
          using False o2
          by (subst crawl_loop.simps)
             (simp add: c get_page_content_quiet [OF assms(1)] h p print_then_quiet)
      next
        case (Some link)
        note link = Some
        show ?thesis
        proof (cases "link = []")
          case True
          then show ?thesis
            using False o2 link
            by (subst crawl_loop.simps)
               (simp add: c get_page_content_quiet [OF assms(1)] h p print_then_quiet)
        next
          case False
          note ne = False
          show ?thesis
          proof (cases "absolute_url w base link")
            case (Inl e)
            then show ?thesis
              using \<open>product_list_items soup \<noteq> []\<close> o2 link ne
              by (subst crawl_loop.simps)
                 (simp add: c get_page_content_quiet [OF assms(1)] h p)
          next
            case (Inr u)
            then show ?thesis
              using \<open>product_list_items soup \<noteq> []\<close> o2 link ne
              by (subst crawl_loop.simps)
                 (simp add: c get_page_content_quiet [OF assms(1)] h p print_then_quiet)
          qed
        qed
      qed
    qed
  qed
qed

lemma page_cards_soup: "listing_soup w base n = Some (Inr soup) \<Longrightarrow> page_cards w base n = product_list_items soup"
  by (simp add: page_cards_def)

lemma page_cards_none: "listing_soup w base n = None \<Longrightarrow> page_cards w base n = []"
  by (simp add: page_cards_def)

text \<open>What one pass of the loop adds to the records and to the request log.\<close>

lemma crawl_loop_stop:
  assumes "\<forall>m. console w m = None" and "page_stop w base n = Some (Inr st)"
  shows "crawl_loop w base n all reqs =
     Some (Inr (all @ concat (map (records_at w) (detail_urls w base (page_cards w base n))), st),
           reqs @ current_page_url base n # detail_urls w base (page_cards w base n))"
proof (cases "listing_soup w base n")
  case None
  then have "st = FetchFailed" using assms(2) by (simp add: page_stop_def)
  then show ?thesis
    using None by (simp add: crawl_loop_failed [OF assms(1) None] page_cards_none detail_urls_def)
next
  case (Some ps)
  then obtain soup where soup: "listing_soup w base n = Some (Inr soup)"
    using assms(2) by (cases ps) (simp_all add: page_stop_def)
  show ?thesis
  proof (cases "product_list_items soup = []")
    case True
    then have "st = NoProducts" using assms(2) soup by (simp add: page_stop_def)
    then show ?thesis
      using True
      by (simp add: crawl_loop_page [OF assms(1) soup] page_cards_soup [OF soup] detail_urls_def)
  next
    case False
    obtain x where x: "fst (process_items w base (product_list_items soup) ([], [])) = Inr x"
      using assms(2) soup False by (auto simp: page_stop_def split: sum.splits)
    have run: "process_items w base (product_list_items soup) (all, reqs @ [current_page_url base n]) =
        (Inr (all @ concat (map (records_at w) (detail_urls w base (product_list_items soup)))),
         (reqs @ [current_page_url base n]) @ detail_urls w base (product_list_items soup))"
      using process_items_ok [OF x, of all "reqs @ [current_page_url base n]"]
        fst_process_items [of w base "product_list_items soup" all "reqs @ [current_page_url base n]"] x
      by (simp add: prod_eq_iff)
    have stop: "(case next_page_link_element soup of
                   None \<Rightarrow> Some (Inr NoNextLink)
                 | Some link \<Rightarrow>
                     if link = [] then Some (Inr NoNextLink)
                     else (case absolute_url w base link of
                             Inl e \<Rightarrow> Some (Inl e)
                           | Inr u \<Rightarrow>
                               if u = current_page_url base n then Some (Inr SameNextPage)
                               else None)) = Some (Inr st)"
      using assms(2) soup False x by (simp add: page_stop_def)
    show ?thesis
      using False stop
      by (auto simp: crawl_loop_page [OF assms(1) soup] run page_cards_soup [OF soup]
            split: option.splits if_splits sum.splits)
  qed
qed

lemma crawl_loop_continue:
  assumes "\<forall>m. console w m = None" and "page_stop w base n = None"
  shows "crawl_loop w base n all reqs =
     crawl_loop w base (n + 1)
       (all @ concat (map (records_at w) (detail_urls w base (page_cards w base n))))
       (reqs @ current_page_url base n # detail_urls w base (page_cards w base n))"
proof -
  obtain ps where "listing_soup w base n = Some ps"
    using assms(2) by (cases "listing_soup w base n") (simp_all add: page_stop_def)
  then obtain soup where soup: "listing_soup w base n = Some (Inr soup)"
    using assms(2) by (cases ps) (simp_all add: page_stop_def)
  have items: "product_list_items soup \<noteq> []"
    using assms(2) soup by (auto simp: page_stop_def split: if_splits)
  obtain x where x: "fst (process_items w base (product_list_items soup) ([], [])) = Inr x"
    using assms(2) soup items by (auto simp: page_stop_def split: sum.splits)
  have run: "process_items w base (product_list_items soup) (all, reqs @ [current_page_url base n]) =
      (Inr (all @ concat (map (records_at w) (detail_urls w base (product_list_items soup)))),
       (reqs @ [current_page_url base n]) @ detail_urls w base (product_list_items soup))"
    using process_items_ok [OF x, of all "reqs @ [current_page_url base n]"]
      fst_process_items [of w base "product_list_items soup" all "reqs @ [current_page_url base n]"] x
    by (simp add: prod_eq_iff)
  obtain link u where l: "next_page_link_element soup = Some link" "link \<noteq> []"
    "absolute_url w base link = Inr u" "u \<noteq> current_page_url base n"
    using assms(2) soup items x
    by (auto simp: page_stop_def split: option.splits if_splits sum.splits)
  show ?thesis
    using items l by (simp add: crawl_loop_page [OF assms(1) soup] run page_cards_soup [OF soup])
qed

lemma crawl_loop_raises:
  assumes "\<forall>m. console w m = None" and "page_stop w base n = Some (Inl e)"
  shows "\<exists>reqs'. crawl_loop w base n all reqs = Some (Inl e, reqs')"
proof (cases "listing_soup w base n")
  case None
  then show ?thesis using assms(2) by (simp add: page_stop_def)
next
  case (Some ps)
  show ?thesis
  proof (cases ps)
    case (Inl e')
    then have "e' = e" using assms(2) Some by (simp add: page_stop_def)
    then show ?thesis using crawl_loop_rejected [OF assms(1), of base n e] Some Inl by simp
  next
    case (Inr soup)
    then have soup: "listing_soup w base n = Some (Inr soup)" using Some by simp
    have items: "product_list_items soup \<noteq> []"
      using assms(2) soup by (auto simp: page_stop_def split: if_splits)
    obtain o2 r2 where p: "process_items w base (product_list_items soup)
        (all, reqs @ [current_page_url base n]) = (o2, r2)"
      by (cases "process_items w base (product_list_items soup) (all, reqs @ [current_page_url base n])")
    have o2: "o2 = map_sum id ((@) all) (fst (process_items w base (product_list_items soup) ([], [])))"
      using fst_process_items [of w base "product_list_items soup" all "reqs @ [current_page_url base n]"] p
      by simp
    show ?thesis
    proof (cases "fst (process_items w base (product_list_items soup) ([], []))")
      case (Inl e')
      then have "e' = e" using assms(2) soup items by (simp add: page_stop_def)
      then show ?thesis
        using items o2 Inl by (simp add: crawl_loop_page [OF assms(1) soup] p)
    next
      case (Inr x)
      then show ?thesis
        using assms(2) soup items o2
        by (auto simp: crawl_loop_page [OF assms(1) soup] p page_stop_def
              split: option.splits if_splits sum.splits)
    qed
  qed
qed

lemma upt_Suc_shift: "[n..<n + Suc (Suc k)] = n # [n + 1..<n + 1 + Suc k]"
  by (simp add: upt_rec)

text \<open>
  A crawl that goes on through \<open>k\<close> pages and stops at the next returns, for every page in
  order and every card in order, the records that extracting the card's detail URL
  gives; its requests are those pages, each followed by the detail URLs of its cards.
\<close>

lemma crawl_loop_run:
  assumes "\<forall>m. console w m = None"
    and "\<forall>i<k. page_stop w base (n + i) = None"
    and "page_stop w base (n + k) = Some (Inr st)"
  shows "crawl_loop w base n all reqs =
     Some (Inr (all @ concat (map (records_at w)
                   (concat (map (\<lambda>i. detail_urls w base (page_cards w base i)) [n..<n + Suc k]))),
                st),
           reqs @ concat (map (\<lambda>i. current_page_url base i # detail_urls w base (page_cards w base i))
                            [n..<n + Suc k]))"
  using assms(2,3)
proof (induction k arbitrary: n all reqs)
  case 0
  then show ?case using crawl_loop_stop [OF assms(1), of base n st all reqs] by simp
next
  case (Suc k)
  have "page_stop w base n = None" using Suc.prems(1) [rule_format, of 0] by simp
  note step = crawl_loop_continue [OF assms(1) this, of all reqs]
  have p1: "\<forall>i<k. page_stop w base (n + 1 + i) = None"
    using Suc.prems(1) by (auto simp: less_Suc_eq_0_disj)
  have p2: "page_stop w base (n + 1 + k) = Some (Inr st)" using Suc.prems(2) by simp
  show ?case
    unfolding step Suc.IH [OF p1 p2] upt_Suc_shift [of n k]
    by simp
qed

lemma next_page_link_absent:
  "find_class ''nav'' ''woocommerce-pagination'' soup = None
     \<Longrightarrow> find_class ''div'' ''pagination-bar__wrapper'' soup = None
     \<Longrightarrow> next_page_link_element soup = None"
  "(find_class ''nav'' ''woocommerce-pagination'' soup = Some nav
      \<or> find_class ''nav'' ''woocommerce-pagination'' soup = None
         \<and> find_class ''div'' ''pagination-bar__wrapper'' soup = Some nav)
     \<Longrightarrow> find_class ''a'' ''next'' nav = None
     \<Longrightarrow> find_class ''a'' ''next page-numbers'' nav = None
     \<Longrightarrow> next_page_link_element soup = None"
  by (auto simp: next_page_link_element_def)

lemma page_stop_done:
  assumes "listing_soup w base n = Some (Inr soup)"
    and "\<exists>x. fst (process_items w base (product_list_items soup) ([], [])) = Inr x"
    and "product_list_items soup = [] \<or> next_page_link_element soup = None
         \<or> (\<exists>l. next_page_link_element soup = Some l
                \<and> absolute_url w base l = Inr (current_page_url base n))"
  shows "\<exists>st. page_stop w base n = Some (Inr st)
            \<and> (st = NoProducts \<or> st = NoNextLink \<or> st = SameNextPage)"
proof (cases "product_list_items soup = []")
  case True
  then show ?thesis using assms(1) by (simp add: page_stop_def)
next
  case False
  obtain x where x: "fst (process_items w base (product_list_items soup) ([], [])) = Inr x"
    using assms(2) by blast
  from assms(3) False consider "next_page_link_element soup = None"
    | l where "next_page_link_element soup = Some l"
        "absolute_url w base l = Inr (current_page_url base n)"
    by auto
  then show ?thesis
  proof cases
    case 1
    then show ?thesis using assms(1) False x by (simp add: page_stop_def)
  next
    case 2
    then show ?thesis using assms(1) False x by (simp add: page_stop_def)
  qed
qed

lemma length_requests_bound:
  "length (concat (map (\<lambda>i. current_page_url base i # detail_urls w base (page_cards w base i)) ns))
     \<le> sum_list (map (\<lambda>i. Suc (length (page_cards w base i))) ns)"
proof (induction ns)
  case Nil
  then show ?case by simp
next
  case (Cons i ns)
  have "length (detail_urls w base (page_cards w base i)) \<le> length (page_cards w base i)"
    by (rule length_detail_urls)
  then show ?case using Cons by simp
qed

text \<open>
  C3, as amended. Let every line be printed. When the loop has gone on through \<open>k\<close>
  pages, the next listing page is fetched and parsed, its cards are processed without an
  exception, and the page has no product card, or no pagination region, or no next link,
  or a next link that resolves to the URL of the page itself, then the loop ends there
  with one of its three normal stops, after at most one request per listing page and one
  per product card.
\<close>

theorem pagination_terminates:
  assumes "\<forall>m. console w m = None"
    and "\<forall>i<k. page_stop w base (n + i) = None"
    and "listing_soup w base (n + k) = Some (Inr soup)"
    and "\<exists>x. fst (process_items w base (product_list_items soup) ([], [])) = Inr x"
    and "product_list_items soup = []
         \<or> (find_class ''nav'' ''woocommerce-pagination'' soup = None
              \<and> find_class ''div'' ''pagination-bar__wrapper'' soup = None)
         \<or> next_page_link_element soup = None
         \<or> (\<exists>l. next_page_link_element soup = Some l
                \<and> absolute_url w base l = Inr (current_page_url base (n + k)))"
  shows "\<exists>recs reqs' st. crawl_loop w base n all reqs = Some (Inr (recs, st), reqs')
           \<and> (st = NoProducts \<or> st = NoNextLink \<or> st = SameNextPage)
           \<and> length reqs' \<le> length reqs
                + sum_list (map (\<lambda>i. Suc (length (page_cards w base i))) [n..<n + Suc k])"
proof -
  have d: "product_list_items soup = [] \<or> next_page_link_element soup = None
         \<or> (\<exists>l. next_page_link_element soup = Some l
                \<and> absolute_url w base l = Inr (current_page_url base (n + k)))"
    using assms(5) next_page_link_absent(1) [of soup] by auto
  obtain st where st: "page_stop w base (n + k) = Some (Inr st)"
    and normal: "st = NoProducts \<or> st = NoNextLink \<or> st = SameNextPage"
    using page_stop_done [OF assms(3,4) d] by blast
  note run = crawl_loop_run [OF assms(1,2) st, of all reqs]
  have "length (reqs @ concat (map (\<lambda>i. current_page_url base i # detail_urls w base (page_cards w base i))
                            [n..<n + Suc k]))
          \<le> length reqs + sum_list (map (\<lambda>i. Suc (length (page_cards w base i))) [n..<n + Suc k])"
    using length_requests_bound [of base w "[n..<n + Suc k]"] by simp
  then show ?thesis using run normal by blast
qed

lemma shop_page_2: "current_page_url shop_url 2 = ''http://s.t/sale/page/2/''"
  by code_simp


lemma shop_stop_1: "page_stop shop shop_url 1 = None"
  by code_simp

lemma shop_soup_2:
  "listing_soup shop shop_url 2 = Some (Inr (document [card ''/products/ghee'', pager ''/sale/page/2/'']))"
  by code_simp

lemma shop_cards_2:
  "\<not> isl (fst (process_items shop shop_url
            (product_list_items (document [card ''/products/ghee'', pager ''/sale/page/2/''])) ([], [])))"
  by code_simp

lemma shop_next_2:
  "next_page_link_element (document [card ''/products/ghee'', pager ''/sale/page/2/'']) =
     Some ''/sale/page/2/''"
  by code_simp

lemma shop_absolute_2: "absolute_url shop shop_url ''/sale/page/2/'' = Inr ''http://s.t/sale/page/2/''"
  by code_simp

theorem pagination_terminates_witness:
  "\<exists>recs reqs' st. crawl_shop_pages shop shop_url = Some (Inr (recs, st), reqs')
     \<and> (st = NoProducts \<or> st = NoNextLink \<or> st = SameNextPage)"
proof -
  let ?soup = "document [card ''/products/ghee'', pager ''/sale/page/2/'']"
  have a1: "\<forall>i<1. page_stop shop shop_url (1 + i) = None"
    using shop_stop_1 by simp
  have a2: "listing_soup shop shop_url (1 + 1) = Some (Inr ?soup)"
    unfolding one_add_one by (rule shop_soup_2)
  have a3: "\<exists>x. fst (process_items shop shop_url (product_list_items ?soup) ([], [])) = Inr x"
    using shop_cards_2
    by (cases "fst (process_items shop shop_url (product_list_items ?soup) ([], []))") simp_all
  have "absolute_url shop shop_url ''/sale/page/2/'' = Inr (current_page_url shop_url (1 + 1))"
    unfolding one_add_one shop_absolute_2 shop_page_2 by (rule refl)
  then have a4: "product_list_items ?soup = []
         \<or> (find_class ''nav'' ''woocommerce-pagination'' ?soup = None
              \<and> find_class ''div'' ''pagination-bar__wrapper'' ?soup = None)
         \<or> next_page_link_element ?soup = None
         \<or> (\<exists>l. next_page_link_element ?soup = Some l
                \<and> absolute_url shop shop_url l = Inr (current_page_url shop_url (1 + 1)))"
    using shop_next_2 by simp
  obtain recs reqs' st where "crawl_loop shop shop_url 1 [] [] = Some (Inr (recs, st), reqs')"
    "st = NoProducts \<or> st = NoNextLink \<or> st = SameNextPage"
    using pagination_terminates [OF shop_quiet a1 a2 a3 a4, of "[]" "[]"] by auto
  then show ?thesis by (auto simp: crawl_shop_pages_def)
qed

text \<open>
  C3 as stated fails: the listing of oddments is one page with no pagination region, and
  its second card has a link that the join rejects. The exception of the join leaves the
  crawl after two requests: it does not end normally, and the record of the first card
  is not returned.
\<close>

theorem pagination_done_counterexample:
  "listing_soup shop ''http://s.t/odd'' 1 =
     Some (Inr (document [card ''/products/tea'', card ''//[/products/x'']))
   \<and> find_class ''nav'' ''woocommerce-pagination''
        (document [card ''/products/tea'', card ''//[/products/x'']) = None
   \<and> find_class ''div'' ''pagination-bar__wrapper''
        (document [card ''/products/tea'', card ''//[/products/x'']) = None
   \<and> absolute_url shop ''http://s.t/odd'' ''//[/products/x'' = Inl ValueError
   \<and> crawl_shop_pages shop ''http://s.t/odd'' \<noteq> None
   \<and> isl (fst (the (crawl_shop_pages shop ''http://s.t/odd'')))
   \<and> projl (fst (the (crawl_shop_pages shop ''http://s.t/odd''))) = ValueError
   \<and> snd (the (crawl_shop_pages shop ''http://s.t/odd'')) =
       [''http://s.t/odd'', ''http://s.t/products/tea'']"
  by code_simp









lemma records_at_source:
  "r \<in> set (records_at w u) \<Longrightarrow> r ''original_url'' = Some (PStr u)"
  unfolding records_at_def fst_parse_product_details print_then_def
  by (auto split: option.splits sum.splits if_splits dest: extract_fields_source)

lemma length_records_at: "length (records_at w u) \<le> 1"
  unfolding records_at_def by (simp split: option.splits sum.splits)

lemma source_urls_records_at:
  "source_urls (records_at w u) = (if records_at w u = [] then [] else [Some (PStr u)])"
proof (cases "records_at w u")
  case Nil
  then show ?thesis by (simp add: source_urls_def)
next
  case (Cons r rs)
  have "rs = []" using length_records_at [of w u] Cons by simp
  moreover have "r ''original_url'' = Some (PStr u)"
    using records_at_source [of r w u] Cons by simp
  ultimately show ?thesis using Cons by (simp add: source_urls_def)
qed

lemma source_urls_append: "source_urls (xs @ ys) = source_urls xs @ source_urls ys"
  by (simp add: source_urls_def)

lemma source_urls_concat:
  "source_urls (concat (map (records_at w) us)) =
     map (\<lambda>u. Some (PStr u)) (filter (\<lambda>u. records_at w u \<noteq> []) us)"
  by (induction us) (simp_all add: source_urls_append source_urls_records_at, simp add: source_urls_def)

lemma count_list_source:
  "count_list (map (\<lambda>u. Some (PStr u)) (filter P us)) (Some (PStr u)) =
     (if P u then count_list us u else 0)"
  by (induction us) auto

lemma distinct_source: "distinct (map (\<lambda>u. Some (PStr u)) us) = distinct us"
  by (simp add: distinct_map inj_on_def)

text \<open>
  C8, as amended. The crawl does not deduplicate. When every line is printed and the
  crawl goes through \<open>k\<close> pages and ends normally at the next, the returned records are,
  in card order over the pages visited, one record for each card whose link resolves to
  a detail URL that extraction gets a record from, and that record carries the URL as
  its source URL. So a URL is the source URL of as many records as there are cards
  linking it, on whichever pages, when extraction gets a record from it, and of none
  otherwise; and the source URLs are pairwise distinct exactly when no such URL is
  linked twice.
\<close>

theorem source_urls_follow_cards:
  assumes "\<forall>m. console w m = None"
    and "\<forall>i<k. page_stop w base (1 + i) = None"
    and "page_stop w base (1 + k) = Some (Inr st)"
  shows "\<exists>recs reqs'. crawl_shop_pages w base = Some (Inr (recs, st), reqs')
     \<and> recs = concat (map (records_at w)
                (concat (map (\<lambda>i. detail_urls w base (page_cards w base i)) [1..<k + 2])))
     \<and> source_urls recs = map (\<lambda>u. Some (PStr u)) (filter (\<lambda>u. records_at w u \<noteq> [])
                (concat (map (\<lambda>i. detail_urls w base (page_cards w base i)) [1..<k + 2])))
     \<and> (\<forall>u. count_list (source_urls recs) (Some (PStr u)) =
              (if records_at w u = [] then 0
               else count_list (concat (map (\<lambda>i. detail_urls w base (page_cards w base i))
                                  [1..<k + 2])) u))
     \<and> (distinct (source_urls recs) \<longleftrightarrow>
          distinct (filter (\<lambda>u. records_at w u \<noteq> [])
            (concat (map (\<lambda>i. detail_urls w base (page_cards w base i)) [1..<k + 2]))))"
proof -
  let ?us = "concat (map (\<lambda>i. detail_urls w base (page_cards w base i)) [1..<k + 2])"
  let ?recs = "concat (map (records_at w) ?us)"
  have e: "1 + Suc k = k + 2" by simp
  have run: "crawl_shop_pages w base = Some (Inr (?recs, st),
       [] @ concat (map (\<lambda>i. current_page_url base i # detail_urls w base (page_cards w base i))
                      [1..<k + 2]))"
    using crawl_loop_run [OF assms, of "[]" "[]"] unfolding crawl_shop_pages_def e by simp
  have s: "source_urls ?recs = map (\<lambda>u. Some (PStr u)) (filter (\<lambda>u. records_at w u \<noteq> []) ?us)"
    by (rule source_urls_concat)
  have c: "count_list (source_urls ?recs) (Some (PStr u)) =
              (if records_at w u = [] then 0 else count_list ?us u)" for u
    unfolding s count_list_source by simp
  have d: "distinct (source_urls ?recs) \<longleftrightarrow> distinct (filter (\<lambda>u. records_at w u \<noteq> []) ?us)"
    unfolding s by (rule distinct_source)
  show ?thesis using run s c d by blast
qed

lemma new_arrivals_stop: "page_stop shop ''http://s.t/new'' 1 = Some (Inr NoNextLink)"
  by code_simp

lemma new_arrivals_urls:
  "detail_urls shop ''http://s.t/new'' (page_cards shop ''http://s.t/new'' 1) =
     [''http://s.t/products/tea'', ''http://s.t/products/lentils'']"
  by code_simp

lemma shop_records_at:
  "records_at shop ''http://s.t/products/tea'' \<noteq> []"
  "records_at shop ''http://s.t/products/lentils'' \<noteq> []"
  by code_simp+

theorem source_urls_follow_cards_witness:
  "\<exists>recs reqs'. crawl_shop_pages shop ''http://s.t/new'' = Some (Inr (recs, NoNextLink), reqs')
     \<and> source_urls recs =
         [Some (PStr ''http://s.t/products/tea''), Some (PStr ''http://s.t/products/lentils'')]
     \<and> distinct (source_urls recs)"
proof -
  have a1: "\<forall>i<0. page_stop shop ''http://s.t/new'' (1 + i) = None" by simp
  have a2: "page_stop shop ''http://s.t/new'' (1 + 0) = Some (Inr NoNextLink)"
    using new_arrivals_stop by simp
  have u: "concat (map (\<lambda>i. detail_urls shop ''http://s.t/new'' (page_cards shop ''http://s.t/new'' i))
              [1..<0 + 2]) = [''http://s.t/products/tea'', ''http://s.t/products/lentils'']"
    using new_arrivals_urls by (simp add: upt_rec)
  obtain recs reqs' where r: "crawl_shop_pages shop ''http://s.t/new'' = Some (Inr (recs, NoNextLink), reqs')"
    and s: "source_urls recs = map (\<lambda>u. Some (PStr u)) (filter (\<lambda>u. records_at shop u \<noteq> [])
                [''http://s.t/products/tea'', ''http://s.t/products/lentils''])"
    and d: "distinct (source_urls recs) \<longleftrightarrow> distinct (filter (\<lambda>u. records_at shop u \<noteq> [])
                [''http://s.t/products/tea'', ''http://s.t/products/lentils''])"
    using source_urls_follow_cards [OF shop_quiet a1 a2] unfolding u by blast
  have s': "source_urls recs =
         [Some (PStr ''http://s.t/products/tea''), Some (PStr ''http://s.t/products/lentils'')]"
    unfolding s using shop_records_at by simp
  have "distinct (source_urls recs)" unfolding s' by simp
  then show ?thesis using r s' by blast
qed

lemma shop_crawl:
  "map_option (\<lambda>y. (isl (fst y), source_urls (fst (projr (fst y))), snd (projr (fst y)), snd y))
       (crawl_shop_pages shop shop_url) =
     Some (False,
           [Some (PStr ''http://s.t/products/tea''), Some (PStr ''http://s.t/products/tea''),
            Some (PStr ''http://s.t/products/lentils'')],
           SameNextPage,
           [''http://s.t/sale'', ''http://s.t/products/tea'', ''http://s.t/products/tea'',
            ''http://s.t/products/gone'', ''http://s.t/products/lentils'',
            ''http://s.t/sale/page/2/'', ''http://s.t/products/ghee''])"
  by code_simp

text \<open>
  C8 as stated fails: page 1 of the shop links the tea from two cards, and the crawl ends
  normally and returns two records with the tea's URL.
\<close>

theorem source_url_unique_counterexample:
  "crawl_shop_pages shop shop_url \<noteq> None
   \<and> \<not> isl (fst (the (crawl_shop_pages shop shop_url)))
   \<and> source_urls (fst (projr (fst (the (crawl_shop_pages shop shop_url))))) =
       [Some (PStr ''http://s.t/products/tea''), Some (PStr ''http://s.t/products/tea''),
        Some (PStr ''http://s.t/products/lentils'')]
   \<and> \<not> distinct (source_urls (fst (projr (fst (the (crawl_shop_pages shop shop_url))))))"
proof -
  obtain y where y: "crawl_shop_pages shop shop_url = Some y"
    using shop_crawl by (cases "crawl_shop_pages shop shop_url") auto
  have "\<not> isl (fst y)" and "source_urls (fst (projr (fst y))) =
       [Some (PStr ''http://s.t/products/tea''), Some (PStr ''http://s.t/products/tea''),
        Some (PStr ''http://s.t/products/lentils'')]"
    using shop_crawl unfolding y by simp_all
  then show ?thesis unfolding y by simp
qed

lemma scroll_loop_exit: "heights i = last_height \<Longrightarrow> scroll_loop heights i last_height = Some i"
  by (subst scroll_loop.simps) simp

lemma scroll_loop_go_on:
  "heights i \<noteq> last_height
     \<Longrightarrow> scroll_loop heights i last_height = scroll_loop heights (i + 1) (heights i)"
  by (subst scroll_loop.simps) simp

lemma scroll_loop_first_equal:
  assumes "\<forall>j<k. heights (i + j) \<noteq> (if j = 0 then last_height else heights (i + j - 1))"
    and "heights (i + k) = (if k = 0 then last_height else heights (i + k - 1))"
  shows "scroll_loop heights i last_height = Some (i + k)"
  using assms
proof (induction k arbitrary: i last_height)
  case 0
  then show ?case by (simp add: scroll_loop_exit)
next
  case (Suc k)
  have ne: "heights i \<noteq> last_height"
    using Suc.prems(1) [rule_format, of 0] by simp
  have a: "\<forall>j<k. heights (i + 1 + j) \<noteq> (if j = 0 then heights i else heights (i + 1 + j - 1))"
  proof (intro allI impI)
    fix j assume "j < k"
    then have "heights (i + Suc j) \<noteq> heights (i + Suc j - 1)"
      using Suc.prems(1) [rule_format, of "Suc j"] by simp
    then show "heights (i + 1 + j) \<noteq> (if j = 0 then heights i else heights (i + 1 + j - 1))"
      by (cases j) simp_all
  qed
  have b: "heights (i + 1 + k) = (if k = 0 then heights i else heights (i + 1 + k - 1))"
    using Suc.prems(2) by (cases k) simp_all
  have "scroll_loop heights (i + 1) (heights i) = Some (i + 1 + k)"
    using Suc.IH [OF a b] .
  then show ?case using ne by (simp add: scroll_loop_go_on)
qed

text \<open>
  C9 on a page that shrinks. The height is 100 before the loop and 90 at every
  measurement inside it. The first measurement is not greater than the height before
  it, yet the loop goes on and is left only at the second iteration, where the height is
  equal to the previous one.
\<close>

theorem scroll_loop_not_left_on_shrink:
  "\<not> (90 :: int) > 100 \<and> scroll_loop (\<lambda>i. 90) 0 100 = Some 1"
proof -
  have "scroll_loop (\<lambda>i. 90) 0 100 = scroll_loop (\<lambda>i. 90) (0 + 1) 90"
    by (subst scroll_loop_go_on) simp_all
  also have "\<dots> = Some (0 + 1)"
    by (rule scroll_loop_exit) simp
  finally show ?thesis by simp
qed

end
